theory Spec2Isabelle
  imports Main "HOL-Library.Char_ord" "HOL-Library.List_Lexorder" "HOL-Library.Multiset" "HOL-Library.AList"
begin

section \<open>Python strings\<close>

text \<open>
  A Python \<^verbatim>\<open>str\<close> is modelled as a \<^typ>\<open>string\<close> whose characters are the code
  points 0 to 255.  The character classes below are the restrictions of Python's
  Unicode classes to that range.
\<close>

definition LF :: char where
  "LF = CHR 0x0A"

definition CR :: char where
  "CR = CHR 0x0D"

definition BSL :: char where
  "BSL = CHR 0x5C"

definition DQ :: char where
  "DQ = CHR 0x22"

definition SQ :: char where
  "SQ = CHR 0x27"

definition code :: "char \<Rightarrow> nat" where
  "code c = of_char c"

text \<open>\<^verbatim>\<open>str.isspace\<close> on one character, which is also the class \<^verbatim>\<open>\s\<close> of \<^verbatim>\<open>re\<close>.\<close>

definition py_isspace :: "char \<Rightarrow> bool" where
  "py_isspace c = (let n = code c in (9 \<le> n \<and> n \<le> 13) \<or> (28 \<le> n \<and> n \<le> 32) \<or> n = 133 \<or> n = 160)"

text \<open>The line boundaries of \<^verbatim>\<open>str.splitlines\<close>.\<close>

definition is_linebreak :: "char \<Rightarrow> bool" where
  "is_linebreak c = (let n = code c in (10 \<le> n \<and> n \<le> 13) \<or> (28 \<le> n \<and> n \<le> 30) \<or> n = 133)"

definition is_upper :: "char \<Rightarrow> bool" where
  "is_upper c = (let n = code c in 65 \<le> n \<and> n \<le> 90)"

definition is_lower :: "char \<Rightarrow> bool" where
  "is_lower c = (let n = code c in 97 \<le> n \<and> n \<le> 122)"

definition is_digit :: "char \<Rightarrow> bool" where
  "is_digit c = (let n = code c in 48 \<le> n \<and> n \<le> 57)"

definition is_alpha :: "char \<Rightarrow> bool" where
  "is_alpha c = (is_upper c \<or> is_lower c)"

text \<open>The class \<^verbatim>\<open>[A-Za-z0-9_]\<close>.\<close>

definition is_ident :: "char \<Rightarrow> bool" where
  "is_ident c = (is_alpha c \<or> is_digit c \<or> c = CHR ''_'')"

text \<open>The class \<^verbatim>\<open>\w\<close> of \<^verbatim>\<open>re\<close> on a \<^verbatim>\<open>str\<close> pattern: alphanumeric or underscore.\<close>

definition is_word :: "char \<Rightarrow> bool" where
  "is_word c = (let n = code c in is_ident c \<or> n = 170 \<or> n = 178 \<or> n = 179 \<or> n = 181
     \<or> n = 185 \<or> n = 186 \<or> n = 188 \<or> n = 189 \<or> n = 190
     \<or> (192 \<le> n \<and> n \<le> 214) \<or> (216 \<le> n \<and> n \<le> 246) \<or> 248 \<le> n)"

text \<open>The class \<^verbatim>\<open>.\<close> of \<^verbatim>\<open>re\<close>: anything but a newline.\<close>

definition is_dot :: "char \<Rightarrow> bool" where
  "is_dot c = (c \<noteq> LF)"

definition strip :: "string \<Rightarrow> string" where
  "strip s = rev (dropWhile py_isspace (rev (dropWhile py_isspace s)))"

definition strip_chars :: "char \<Rightarrow> string \<Rightarrow> string" where
  "strip_chars x s = rev (dropWhile (\<lambda>c. c = x) (rev (dropWhile (\<lambda>c. c = x) s)))"

definition startswith :: "string \<Rightarrow> string \<Rightarrow> bool" where
  "startswith s p = (take (length p) s = p)"

definition endswith :: "string \<Rightarrow> string \<Rightarrow> bool" where
  "endswith s p = (length p \<le> length s \<and> drop (length s - length p) s = p)"

text \<open>\<^verbatim>\<open>s.find(p, start)\<close> for \<^verbatim>\<open>start \<le> len(s)\<close>; \<open>None\<close> is Python's \<open>-1\<close>.\<close>

fun find_from :: "string \<Rightarrow> nat \<Rightarrow> string \<Rightarrow> nat option" where
  "find_from p i [] = (if p = [] then Some i else None)"
| "find_from p i (c # cs) =
     (if startswith (c # cs) p then Some i else find_from p (Suc i) cs)"

definition find :: "string \<Rightarrow> string \<Rightarrow> nat \<Rightarrow> nat option" where
  "find s p start = find_from p start (drop start s)"

text \<open>\<^verbatim>\<open>str.splitlines()\<close>: \<open>cur\<close> holds the current line, reversed.\<close>

fun splitlines_aux :: "string \<Rightarrow> string \<Rightarrow> string list" where
  "splitlines_aux cur [] = (if cur = [] then [] else [rev cur])"
| "splitlines_aux cur [c] = (if is_linebreak c then [rev cur] else [rev (c # cur)])"
| "splitlines_aux cur (c # d # cs) =
     (if c = CR \<and> d = LF then rev cur # splitlines_aux [] cs
      else if is_linebreak c then rev cur # splitlines_aux [] (d # cs)
      else splitlines_aux (c # cur) (d # cs))"

definition splitlines :: "string \<Rightarrow> string list" where
  "splitlines s = splitlines_aux [] s"

text \<open>\<^verbatim>\<open>s.split(sep)\<close> for a separator of one character: always at least one part.\<close>

fun split_char_aux :: "char \<Rightarrow> string \<Rightarrow> string \<Rightarrow> string list" where
  "split_char_aux sep cur [] = [rev cur]"
| "split_char_aux sep cur (c # cs) =
     (if c = sep then rev cur # split_char_aux sep [] cs else split_char_aux sep (c # cur) cs)"

definition split_char :: "char \<Rightarrow> string \<Rightarrow> string list" where
  "split_char sep s = split_char_aux sep [] s"

text \<open>\<^verbatim>\<open>s.split(sep, 1)[0]\<close>: the text before the first occurrence of \<open>sep\<close>.\<close>

definition before_first :: "string \<Rightarrow> string \<Rightarrow> string" where
  "before_first sep s = (case find s sep 0 of None \<Rightarrow> s | Some i \<Rightarrow> take i s)"

text \<open>\<^verbatim>\<open>s.split()\<close>: the maximal runs of non-whitespace characters.\<close>

fun split_ws_aux :: "string \<Rightarrow> string \<Rightarrow> string list" where
  "split_ws_aux cur [] = (if cur = [] then [] else [rev cur])"
| "split_ws_aux cur (c # cs) =
     (if py_isspace c then (if cur = [] then split_ws_aux [] cs else rev cur # split_ws_aux [] cs)
      else split_ws_aux (c # cur) cs)"

definition split_ws :: "string \<Rightarrow> string list" where
  "split_ws s = split_ws_aux [] s"

text \<open>\<^verbatim>\<open>sep.join(xs)\<close>.\<close>

fun join :: "string \<Rightarrow> string list \<Rightarrow> string" where
  "join sep [] = []"
| "join sep [x] = x"
| "join sep (x # y # ys) = x @ sep @ join sep (y # ys)"

section \<open>Regular expressions\<close>

text \<open>
  Every pattern of the script is a sequence of literals, character classes, repetitions of
  one character class, anchors and unnested groups.  \<open>rx_match\<close> is the backtracking
  matcher of \<^verbatim>\<open>re.match\<close> on such a sequence: it returns the captured groups of the
  first match in Python's priority order (greedy repetitions try the longest run first,
  lazy ones the shortest).  \<open>pre\<close> is the text before the current position, reversed.
\<close>

datatype rx =
    Lit string
  | One "char \<Rightarrow> bool"
  | Star "char \<Rightarrow> bool"
  | Plus "char \<Rightarrow> bool"
  | LazyPlus "char \<Rightarrow> bool"
  | WordB
  | Eos
  | GOpen
  | GClose

text \<open>The positions a repetition of class \<open>p\<close> can stop at, shortest run first.\<close>

fun spans :: "(char \<Rightarrow> bool) \<Rightarrow> string \<Rightarrow> string \<Rightarrow> (string \<times> string) list" where
  "spans p pre [] = [(pre, [])]"
| "spans p pre (c # cs) = (pre, c # cs) # (if p c then spans p (c # pre) cs else [])"

fun first_some :: "('a \<Rightarrow> 'b option) \<Rightarrow> 'a list \<Rightarrow> 'b option" where
  "first_some f [] = None"
| "first_some f (x # xs) = (case f x of Some r \<Rightarrow> Some r | None \<Rightarrow> first_some f xs)"

definition at_word_boundary :: "string \<Rightarrow> string \<Rightarrow> bool" where
  "at_word_boundary pre rest =
     ((case pre of [] \<Rightarrow> False | c # _ \<Rightarrow> is_word c) \<noteq> (case rest of [] \<Rightarrow> False | c # _ \<Rightarrow> is_word c))"

fun rx_match :: "rx list \<Rightarrow> string \<Rightarrow> string \<Rightarrow> nat list \<Rightarrow> string list \<Rightarrow> string list option" where
  "rx_match [] pre rest opens caps = Some caps"
| "rx_match (Lit l # r) pre rest opens caps =
     (if startswith rest l then rx_match r (rev l @ pre) (drop (length l) rest) opens caps else None)"
| "rx_match (One p # r) pre rest opens caps =
     (case rest of [] \<Rightarrow> None
      | c # cs \<Rightarrow> if p c then rx_match r (c # pre) cs opens caps else None)"
| "rx_match (Star p # r) pre rest opens caps =
     first_some (\<lambda>(pre', rest'). rx_match r pre' rest' opens caps) (rev (spans p pre rest))"
| "rx_match (Plus p # r) pre rest opens caps =
     first_some (\<lambda>(pre', rest'). rx_match r pre' rest' opens caps) (rev (tl (spans p pre rest)))"
| "rx_match (LazyPlus p # r) pre rest opens caps =
     first_some (\<lambda>(pre', rest'). rx_match r pre' rest' opens caps) (tl (spans p pre rest))"
| "rx_match (WordB # r) pre rest opens caps =
     (if at_word_boundary pre rest then rx_match r pre rest opens caps else None)"
| "rx_match (Eos # r) pre rest opens caps =
     (if rest = [] \<or> rest = [LF] then rx_match r pre rest opens caps else None)"
| "rx_match (GOpen # r) pre rest opens caps = rx_match r pre rest (length pre # opens) caps"
| "rx_match (GClose # r) pre rest opens caps =
     (case opens of [] \<Rightarrow> None
      | start # opens' \<Rightarrow>
          rx_match r pre rest opens' (caps @ [rev (take (length pre - start) pre)]))"

definition re_match :: "rx list \<Rightarrow> string \<Rightarrow> string list option" where
  "re_match r s = rx_match r [] s [] []"

text \<open>\<^verbatim>\<open>re.search\<close>: the first start position with a match.\<close>

definition re_search :: "rx list \<Rightarrow> string \<Rightarrow> string list option" where
  "re_search r s = first_some (\<lambda>(pre, rest). rx_match r pre rest [] []) (spans (\<lambda>c. True) [] s)"

text \<open>\<^verbatim>\<open>m.group(n)\<close> of a match with captured groups \<open>caps\<close>.\<close>

definition group :: "nat \<Rightarrow> string list \<Rightarrow> string" where
  "group n caps = (if 0 < n \<and> n \<le> length caps then caps ! (n - 1) else [])"

section \<open>The generator script \<^verbatim>\<open>scripts/gen_integration_tests.py\<close>\<close>

datatype py_error = ValueError string | SystemExit string | RecursionError

subsection \<open>Source extraction\<close>

text \<open>The pattern \<^verbatim>\<open>MODULE_NAME:\s*&str\s*=\s*"([^"]+)"\<close>.\<close>

definition rx_module_name :: "rx list" where
  "rx_module_name = [Lit ''MODULE_NAME:'', Star py_isspace, Lit ''&str'', Star py_isspace,
     Lit ''='', Star py_isspace, Lit [DQ], GOpen, Plus (\<lambda>c. c \<noteq> DQ), GClose, Lit [DQ]]"

definition parse_module_name :: "string \<Rightarrow> py_error + string" where
  "parse_module_name rs_text =
     (case re_search rx_module_name rs_text of
        None \<Rightarrow> Inl (ValueError ''missing MODULE_NAME'')
      | Some m \<Rightarrow> Inr (group 1 m))"

definition source_marker :: string where
  "source_marker = ''pub const SOURCE: &str = r#'' @ [DQ]"

definition source_terminator :: string where
  "source_terminator = [DQ] @ ''#;''"

definition parse_aivi_source :: "string \<Rightarrow> py_error + string" where
  "parse_aivi_source rs_text =
     (case find rs_text source_marker 0 of
        None \<Rightarrow> Inl (ValueError ''missing SOURCE marker'')
      | Some start0 \<Rightarrow>
          (let start = start0 + length source_marker in
           case find rs_text source_terminator start of
             None \<Rightarrow> Inl (ValueError ''missing SOURCE terminator'')
           | Some end \<Rightarrow> Inr (take (end - start) (drop start rs_text))))"

subsection \<open>Declaration parsing\<close>

definition exports_of_line :: "string \<Rightarrow> string list" where
  "exports_of_line line =
     (let s = strip line in
      if \<not> startswith s ''export '' then []
      else (let rest = strip (before_first ''//'' (drop (length ''export '') s))
            in filter (\<lambda>name. name \<noteq> []) (map strip (split_char CHR '','' rest))))"

definition split_exports :: "string \<Rightarrow> string list" where
  "split_exports aivi_source = concat (map exports_of_line (splitlines aivi_source))"

text \<open>The pattern \<^verbatim>\<open>^[A-Z][A-Za-z0-9_]*$\<close>.\<close>

definition is_upper_name :: "string \<Rightarrow> bool" where
  "is_upper_name name = (re_match [One is_upper, Star is_ident, Eos] name \<noteq> None)"

text \<open>The pattern \<^verbatim>\<open>^[0-9]+[A-Za-z][A-Za-z0-9_]*$\<close>.\<close>

definition is_suffix_template :: "string \<Rightarrow> bool" where
  "is_suffix_template name = (re_match [Plus is_digit, One is_alpha, Star is_ident, Eos] name \<noteq> None)"

text \<open>\<^verbatim>\<open>re.sub(r"^[0-9]+", "", s)\<close>.\<close>

definition strip_leading_digits :: "string \<Rightarrow> string" where
  "strip_leading_digits s = dropWhile is_digit s"

text \<open>\<^verbatim>\<open>re.sub(r"_+", "_", s)\<close>.\<close>

fun squeeze_underscores :: "string \<Rightarrow> string" where
  "squeeze_underscores [] = []"
| "squeeze_underscores [c] = [c]"
| "squeeze_underscores (c # d # cs) =
     (if c = CHR ''_'' \<and> d = CHR ''_'' then squeeze_underscores (d # cs)
      else c # squeeze_underscores (d # cs))"

text \<open>\<^verbatim>\<open>str.isdigit\<close> on one character.\<close>

definition py_isdigit :: "char \<Rightarrow> bool" where
  "py_isdigit c = (let n = code c in is_digit c \<or> n = 178 \<or> n = 179 \<or> n = 185)"

definition sanitize_segment :: "string \<Rightarrow> string" where
  "sanitize_segment seg0 =
     (let seg1 = strip seg0;
          seg2 = map (\<lambda>c. if c = CHR ''-'' then CHR ''_'' else c) seg1;
          seg3 = map (\<lambda>c. if is_ident c then c else CHR ''_'') seg2;
          seg4 = strip_chars CHR ''_'' (squeeze_underscores seg3);
          seg5 = (if seg4 = [] then ''x'' else seg4)
      in case seg5 of [] \<Rightarrow> seg5
         | c # _ \<Rightarrow> if py_isdigit c then ''n_'' @ seg5 else seg5)"

definition module_segments :: "string \<Rightarrow> string list" where
  "module_segments module_name = map sanitize_segment (split_char CHR ''.'' module_name)"

definition header :: "string \<Rightarrow> string" where
  "header module_name = ''@no_prelude'' @ [LF] @ ''module '' @ module_name @ [LF]"

definition use_select :: "string \<Rightarrow> string \<Rightarrow> string" where
  "use_select module item = ''use '' @ module @ '' ('' @ item @ '')'' @ [LF]"

definition use_all :: "string \<Rightarrow> string" where
  "use_all module = ''use '' @ module @ [LF]"

definition use_testlib :: string where
  "use_testlib = ''use aivi.testing (assert)'' @ [LF]"

text \<open>The pattern \<^verbatim>\<open>^\s*([A-Z][A-Za-z0-9_]*)\b.*=\<close>.\<close>

definition rx_type_def :: "rx list" where
  "rx_type_def = [Star py_isspace, GOpen, One is_upper, Star is_ident, GClose, WordB,
     Star is_dot, Lit ''='']"

definition parse_type_defs :: "string \<Rightarrow> string set" where
  "parse_type_defs aivi_source =
     set (concat (map (\<lambda>line. case re_match rx_type_def line of
                                  None \<Rightarrow> [] | Some m \<Rightarrow> [group 1 m])
                      (splitlines aivi_source)))"

text \<open>
  A Python \<^verbatim>\<open>dict\<close> is an association list in insertion order; \<^verbatim>\<open>d[k] = v\<close> is
  \<^const>\<open>AList.update\<close>, which keeps the place of a key that is already there.

  The patterns \<^verbatim>\<open>^\s*([A-Z][A-Za-z0-9_]*)\b[^=]*=\s*\{(.*)\}\s*$\<close> and
  \<^verbatim>\<open>^([a-z][A-Za-z0-9_]*)\s*:\s*(.+)$\<close>.
\<close>

type_synonym fields = "(string \<times> string) list"

type_synonym record_types = "(string \<times> fields) list"

definition rx_record :: "rx list" where
  "rx_record = [Star py_isspace, GOpen, One is_upper, Star is_ident, GClose, WordB,
     Star (\<lambda>c. c \<noteq> CHR ''=''), Lit ''='', Star py_isspace, Lit ''{'', GOpen, Star is_dot, GClose,
     Lit ''}'', Star py_isspace, Eos]"

definition rx_field :: "rx list" where
  "rx_field = [GOpen, One is_lower, Star is_ident, GClose, Star py_isspace, Lit '':'',
     Star py_isspace, GOpen, Plus is_dot, GClose, Eos]"

text \<open>The loop over \<^verbatim>\<open>body.split(",")\<close>.\<close>

fun record_fields :: "string list \<Rightarrow> fields \<Rightarrow> fields" where
  "record_fields [] fields = fields"
| "record_fields (part # parts) fields =
     (let item = strip part in
      if item = [] then record_fields parts fields
      else (case re_match rx_field item of
              None \<Rightarrow> record_fields parts fields
            | Some fm \<Rightarrow> record_fields parts (AList.update (group 1 fm) (strip (group 2 fm)) fields)))"

fun record_lines :: "string list \<Rightarrow> record_types \<Rightarrow> record_types" where
  "record_lines [] out = out"
| "record_lines (line # lines) out =
     (case re_match rx_record line of
        None \<Rightarrow> record_lines lines out
      | Some m \<Rightarrow>
          (let name = group 1 m;
               body = strip (group 2 m);
               fields = (if body \<noteq> [] then record_fields (split_char CHR '','' body) [] else [])
           in record_lines lines (AList.update name fields out)))"

definition parse_record_type_aliases :: "string \<Rightarrow> record_types" where
  "parse_record_type_aliases aivi_source = record_lines (splitlines aivi_source) []"

text \<open>The pattern \<^verbatim>\<open>^\s*class\s+([A-Z][A-Za-z0-9_]*)\b\<close>.\<close>

definition rx_class :: "rx list" where
  "rx_class = [Star py_isspace, Lit ''class'', Plus py_isspace, GOpen, One is_upper,
     Star is_ident, GClose, WordB]"

definition parse_class_defs :: "string \<Rightarrow> string set" where
  "parse_class_defs aivi_source =
     set (concat (map (\<lambda>line. case re_match rx_class line of
                                  None \<Rightarrow> [] | Some m \<Rightarrow> [group 1 m])
                      (splitlines aivi_source)))"

text \<open>
  The pattern of \<^verbatim>\<open>parse_ctor_exports\<close> is the raw string
  \<^verbatim>\<open>r"^([A-Z][A-Za-z0-9_]*)\\b.*=\\s*(.+)$"\<close>.  In a raw string the two backslashes
  stay two characters, so \<^verbatim>\<open>re\<close> reads an escaped backslash followed by the letter
  \<^verbatim>\<open>b\<close>, and after the equals sign an escaped backslash followed by \<^verbatim>\<open>s*\<close>: the
  pattern asks for a literal backslash and \<^verbatim>\<open>b\<close> after the type name, and for a
  literal backslash after the equals sign.
\<close>

definition rx_ctor :: "rx list" where
  "rx_ctor = [GOpen, One is_upper, Star is_ident, GClose, Lit [BSL, CHR ''b''], Star is_dot,
     Lit ''='', Lit [BSL], Star (\<lambda>c. c = CHR ''s''), GOpen, Plus is_dot, GClose, Eos]"

definition ctor_heads :: "string \<Rightarrow> string list" where
  "ctor_heads rhs =
     concat (map (\<lambda>part. case split_ws (strip part) of
                            [] \<Rightarrow> []
                          | name # _ \<Rightarrow> if is_upper_name name then [name] else [])
                 (split_char CHR ''|'' rhs))"

definition ctors_of_line :: "string \<Rightarrow> string list" where
  "ctors_of_line line =
     (let s = strip line in
      if s = [] \<or> startswith s ''//'' then []
      else if CHR ''|'' \<notin> set s \<or> CHR ''='' \<notin> set s then []
      else (case re_match rx_ctor s of
              None \<Rightarrow> []
            | Some m \<Rightarrow> ctor_heads (group 2 m)))"

definition parse_ctor_exports :: "string \<Rightarrow> string set" where
  "parse_ctor_exports aivi_source = set (concat (map ctors_of_line (splitlines aivi_source)))"

subsection \<open>Expression synthesis\<close>

text \<open>
  The loop of \<^verbatim>\<open>_split_top_level_commas\<close>: \<open>cur\<close> is the current part, reversed, and the
  parts are returned in the order they are appended.
\<close>

fun split_loop :: "int \<Rightarrow> string \<Rightarrow> string \<Rightarrow> string list" where
  "split_loop depth cur [] = (let tail = strip (rev cur) in if tail \<noteq> [] then [tail] else [])"
| "split_loop depth cur (ch # text) =
     (let depth' = (if ch \<in> set ''([{'' then depth + 1
                    else if ch \<in> set '')]}'' then max 0 (depth - 1)
                    else depth)
      in if ch = CHR '','' \<and> depth' = 0 then strip (rev cur) # split_loop depth' [] text
         else split_loop depth' (ch # cur) text)"

definition split_top_level_commas :: "string \<Rightarrow> string list" where
  "split_top_level_commas text = split_loop 0 [] text"

text \<open>\<^verbatim>\<open>" ".join(ty.strip().split())\<close>.\<close>

definition normalize :: "string \<Rightarrow> string" where
  "normalize ty = join '' '' (split_ws (strip ty))"

text \<open>\<^verbatim>\<open>expr or 'Unit'\<close>: \<open>None\<close> and the empty string are both false.\<close>

definition or_unit :: "string option \<Rightarrow> string" where
  "or_unit expr = (case expr of None \<Rightarrow> ''Unit'' | Some e \<Rightarrow> if e = [] then ''Unit'' else e)"

text \<open>A loop whose body may raise: it stops at the first error.\<close>

fun map_result :: "('a \<Rightarrow> 'e + 'b) \<Rightarrow> 'a list \<Rightarrow> 'e + 'b list" where
  "map_result f [] = Inr []"
| "map_result f (x # xs) =
     (case f x of
        Inl e \<Rightarrow> Inl e
      | Inr y \<Rightarrow> (case map_result f xs of Inl e \<Rightarrow> Inl e | Inr ys \<Rightarrow> Inr (y # ys)))"

text \<open>
  \<^verbatim>\<open>sample_expr_for_type\<close> calls itself on the field types of a record and on the
  components of a tuple, and nothing in the script bounds how deep these calls nest.  Python
  does: it raises \<^verbatim>\<open>RecursionError\<close> when its call stack is full.  The first argument of
  the model is the nesting of calls that is still allowed: each call takes one level, and a
  call with no level left raises \<^verbatim>\<open>RecursionError\<close>.

  The levels bound the nesting of the calls of \<^verbatim>\<open>sample_expr_for_type\<close>; they do not count
  the frames of Python's stack.  A nested call takes at least one frame, so a stack of a
  given number of frames allows at most that many levels; it may allow fewer, since a
  comprehension can take a frame of its own (on CPython up to 3.11 a tuple level takes two
  frames) and so do the functions that a call calls.  What is returned does not depend on the
  levels, once there are enough of them.
\<close>

fun sample_expr_for_type ::
  "nat \<Rightarrow> string \<Rightarrow> record_types \<Rightarrow> string list \<Rightarrow> string list \<Rightarrow> py_error + string option" where
  "sample_expr_for_type 0 ty0 record_types domain_templates domain_named_literals =
     Inl RecursionError"
| "sample_expr_for_type (Suc levels) ty0 record_types domain_templates domain_named_literals =
     (let ty = normalize ty0 in
      case map_of record_types ty of
        Some fields \<Rightarrow>
          (case map_result
                  (\<lambda>(field, field_ty).
                     case sample_expr_for_type levels field_ty record_types domain_templates
                            domain_named_literals of
                       Inl e \<Rightarrow> Inl e
                     | Inr expr \<Rightarrow> Inr (field @ '': '' @ or_unit expr))
                  fields of
             Inl e \<Rightarrow> Inl e
           | Inr parts \<Rightarrow> Inr (Some (''{ '' @ join '', '' parts @ '' }'')))
      | None \<Rightarrow>
          if ty = ''Int'' then Inr (Some ''1'')
          else if ty = ''Float'' then Inr (Some ''1.0'')
          else if ty = ''Bool'' then Inr (Some ''True'')
          else if ty = ''Text'' then Inr (Some ([DQ] @ ''x'' @ [DQ]))
          else if ty = ''Char'' then Inr (Some ([SQ] @ ''x'' @ [SQ]))
          else if ty = ''Unit'' then Inr (Some ''Unit'')
          else if ty = ''Bytes'' then Inr (Some ''bytes.empty'')
          else if startswith ty ''Option '' then Inr (Some ''None'')
          else if startswith ty ''List '' then Inr (Some ''[]'')
          else
            (case (if startswith ty ''('' \<and> endswith ty '')''
                   then (let inner = strip (take (length ty - 2) (drop 1 ty));
                             items = split_top_level_commas inner
                         in if 2 \<le> length items
                            then Some (map_result
                                   (\<lambda>item.
                                      case sample_expr_for_type levels item record_types
                                             domain_templates domain_named_literals of
                                        Inl e \<Rightarrow> Inl e
                                      | Inr expr \<Rightarrow> Inr (or_unit expr))
                                   items)
                            else None)
                   else None) of
               Some (Inl e) \<Rightarrow> Inl e
             | Some (Inr exprs) \<Rightarrow> Inr (Some (''('' @ join '', '' exprs @ '')''))
             | None \<Rightarrow>
                 if startswith ty ''Map '' then Inr (Some (''Map.insert '' @ [DQ] @ ''a'' @ [DQ] @ '' 1 Map.empty''))
                 else if startswith ty ''Set '' then Inr (Some ''Set.insert 1 Set.empty'')
                 else if ty = ''Delta'' then
                   (if domain_templates \<noteq> [] then
                      Inr (Some (''2'' @ strip_leading_digits (hd domain_templates)))
                    else if domain_named_literals \<noteq> [] then Inr (Some (hd domain_named_literals))
                    else Inr None)
                 else Inr None))"

subsection \<open>Test emission\<close>

text \<open>
  A write is the path of the file below \<^verbatim>\<open>OUT\<close>, as its list of segments, and the text
  written.  \<^verbatim>\<open>write\<close> creates the parent directories and overwrites the file.
\<close>

type_synonym file_write = "string list \<times> string"

definition smoke_subject :: string where
  "smoke_subject = [LF] @ ''@test'' @ [LF] @ ''smoke = effect {'' @ [LF] @ ''  _ <- pure subject'' @ [LF]
     @ ''  _ <- assert True'' @ [LF] @ ''}'' @ [LF]"

definition smoke_ref :: string where
  "smoke_ref = [LF] @ ''@test'' @ [LF] @ ''smoke = effect {'' @ [LF] @ ''  _ <- assert True'' @ [LF]
     @ ''}'' @ [LF]"

text \<open>\<^verbatim>\<open>basic_export_test\<close> returns the write it makes, or \<open>None\<close> when it returns without one.\<close>

definition basic_export_test ::
  "string \<Rightarrow> string \<Rightarrow> string set \<Rightarrow> record_types \<Rightarrow> string set \<Rightarrow> file_write option" where
  "basic_export_test modl export_name type_defs record_types ctor_exports =
     (let mod_segs = module_segments modl;
          case_name = sanitize_segment export_name;
          test_module = join ''.'' ([''integrationTests'', ''stdlib''] @ mod_segs @ [case_name]);
          out_path = mod_segs @ [case_name @ ''.aivi''];
          body = header test_module @ ([LF] @ ''use aivi'' @ [LF] @ use_testlib) @ ([LF] @ use_all modl)
      in if startswith export_name ''domain '' then None
         else if is_upper_name export_name then
           (if export_name \<in> ctor_exports
            then Some (out_path, body @ ([LF] @ ''subject = '' @ export_name @ [LF]) @ smoke_subject)
            else Some (out_path, body @ ([LF] @ ''Ref = '' @ export_name @ [LF]) @ smoke_ref))
         else
           (let subject_expr =
                  (if is_suffix_template export_name
                   then (let suffix = strip_leading_digits export_name
                         in if suffix = ''dec'' then ''3.14'' @ suffix else ''2'' @ suffix)
                   else export_name)
            in Some (out_path, body @ ([LF] @ ''subject = '' @ subject_expr @ [LF]) @ smoke_subject)))"

subsection \<open>Domains\<close>

record DomainDef =
  name :: string
  carrier :: string
  operators :: "(string \<times> string) list"
  templates :: "string list"
  named_literals :: "string list"

text \<open>
  The patterns \<^verbatim>\<open>^\s*domain\s+([A-Za-z][A-Za-z0-9_]*)\s+over\s+(.+?)\s*=\s*{\s*$\<close>,
  \<^verbatim>\<open>^\s*\(([^)]+)\)\s*:\s*(.+?)\s*$\<close>,
  \<^verbatim>\<open>^\s*([0-9]+[A-Za-z][A-Za-z0-9_]*)\s*=\s*.+$\<close> and
  \<^verbatim>\<open>^\s*([a-z][A-Za-z0-9_]*)\s*=\s*([A-Z][A-Za-z0-9_]*)\b.*$\<close>.
\<close>

definition rx_domain :: "rx list" where
  "rx_domain = [Star py_isspace, Lit ''domain'', Plus py_isspace, GOpen, One is_alpha,
     Star is_ident, GClose, Plus py_isspace, Lit ''over'', Plus py_isspace, GOpen, LazyPlus is_dot,
     GClose, Star py_isspace, Lit ''='', Star py_isspace, Lit ''{'', Star py_isspace, Eos]"

definition rx_op :: "rx list" where
  "rx_op = [Star py_isspace, Lit ''('', GOpen, Plus (\<lambda>c. c \<noteq> CHR '')''), GClose, Lit '')'',
     Star py_isspace, Lit '':'', Star py_isspace, GOpen, LazyPlus is_dot, GClose, Star py_isspace,
     Eos]"

definition rx_tpl :: "rx list" where
  "rx_tpl = [Star py_isspace, GOpen, Plus is_digit, One is_alpha, Star is_ident, GClose,
     Star py_isspace, Lit ''='', Star py_isspace, Plus is_dot, Eos]"

definition rx_named :: "rx list" where
  "rx_named = [Star py_isspace, GOpen, One is_lower, Star is_ident, GClose, Star py_isspace,
     Lit ''='', Star py_isspace, GOpen, One is_upper, Star is_ident, GClose, WordB, Star is_dot,
     Eos]"

text \<open>The inner loop: the lines of the block, and the index of the line after it.\<close>

function block_loop :: "string list \<Rightarrow> nat \<Rightarrow> int \<Rightarrow> string list \<Rightarrow> string list \<times> nat" where
  "block_loop lines i brace block =
     (if i < length lines \<and> brace > 0 then
        (let cur = lines ! i;
             brace' = brace + int (count_list cur CHR ''{'') - int (count_list cur CHR ''}'')
         in block_loop lines (i + 1) brace' (if brace' > 0 then block @ [cur] else block))
      else (block, i))"
  by pat_completeness auto
termination
  by (relation "measure (\<lambda>(lines, i, brace, block). length lines - i)") auto

declare block_loop.simps [simp del]

text \<open>The loop over the lines of a block.\<close>

fun scan_block ::
  "string list \<Rightarrow> (string \<times> string) list \<Rightarrow> string list \<Rightarrow> string list
     \<Rightarrow> (string \<times> string) list \<times> string list \<times> string list" where
  "scan_block [] ops tpls lits = (ops, tpls, lits)"
| "scan_block (bline # rest) ops tpls lits =
     (case re_match rx_op bline of
        Some m_op \<Rightarrow> scan_block rest (ops @ [(strip (group 1 m_op), strip (group 2 m_op))]) tpls lits
      | None \<Rightarrow>
          (case re_match rx_tpl bline of
             Some m_tpl \<Rightarrow> scan_block rest ops (tpls @ [group 1 m_tpl]) lits
           | None \<Rightarrow>
               (case re_match rx_named bline of
                  Some m_named \<Rightarrow> scan_block rest ops tpls (lits @ [group 1 m_named])
                | None \<Rightarrow> scan_block rest ops tpls lits)))"

definition make_domain :: "string \<Rightarrow> string \<Rightarrow> string list \<Rightarrow> DomainDef" where
  "make_domain nm car block =
     (case scan_block block [] [] [] of
        (ops, tpls, lits) \<Rightarrow>
          \<lparr>name = nm, carrier = car, operators = ops, templates = tpls, named_literals = lits\<rparr>)"

lemma block_loop_index: "i \<le> snd (block_loop lines i brace block)"
proof (induction lines i brace block rule: block_loop.induct)
  case (1 lines i brace block)
  show ?case
  proof (cases "i < length lines \<and> brace > 0")
    case True
    then show ?thesis
      using "1.IH" [OF True refl refl] by (subst block_loop.simps) (simp add: Let_def)
  next
    case False
    then have "block_loop lines i brace block = (block, i)"
      by (subst block_loop.simps) auto
    then show ?thesis by simp
  qed
qed


text \<open>The outer loop.\<close>

function domain_loop :: "string list \<Rightarrow> nat \<Rightarrow> DomainDef list \<Rightarrow> DomainDef list" where
  "domain_loop lines i out =
     (if i < length lines then
        (case re_match rx_domain (lines ! i) of
           None \<Rightarrow> domain_loop lines (i + 1) out
         | Some m \<Rightarrow>
             (case block_loop lines (i + 1) 1 [] of
                (block, i') \<Rightarrow>
                  domain_loop lines i' (out @ [make_domain (group 1 m) (strip (group 2 m)) block])))
      else out)"
  by pat_completeness auto
termination
proof (relation "measure (\<lambda>(lines, i, out). length lines - i)")
  show "wf (measure (\<lambda>(lines, i, out). length lines - i))" by simp
next
  fix lines :: "string list" and i :: nat and out :: "DomainDef list"
  assume "i < length lines"
  then show "((lines, i + 1, out), (lines, i, out)) \<in> measure (\<lambda>(lines, i, out). length lines - i)"
    by simp
next
  fix lines :: "string list" and i :: nat and out :: "DomainDef list" and m x2 block i'
  assume a: "i < length lines" and b: "(block, i') = block_loop lines (i + 1) 1 []"
  have "i + 1 \<le> snd (block_loop lines (i + 1) 1 [])" by (rule block_loop_index)
  with b have "i < i'" by (metis Suc_eq_plus1 Suc_le_lessD snd_conv)
  with a show "((lines, i', out @ [make_domain (group 1 m) (strip (group 2 m)) block]), (lines, i, out))
      \<in> measure (\<lambda>(lines, i, out). length lines - i)"
    by simp
qed

declare domain_loop.simps [simp del]

definition parse_domain_defs :: "string \<Rightarrow> DomainDef list" where
  "parse_domain_defs aivi_source = domain_loop (splitlines aivi_source) 0 []"


definition suffix_test :: "string \<Rightarrow> DomainDef \<Rightarrow> string \<Rightarrow> file_write" where
  "suffix_test modl domain tpl =
     (let mod_segs = module_segments modl;
          dom_dir = mod_segs @ [''domain_'' @ sanitize_segment (name domain)];
          dom_mod_prefix = [''integrationTests'', ''stdlib''] @ mod_segs
                             @ [''domain_'' @ sanitize_segment (name domain)];
          suffix = strip_leading_digits tpl;
          case_name = ''suffix_'' @ sanitize_segment suffix;
          test_module = join ''.'' (dom_mod_prefix @ [case_name]);
          out_path = dom_dir @ [case_name @ ''.aivi''];
          body = header test_module @ ([LF] @ ''use aivi'' @ [LF] @ use_testlib) @ ([LF] @ use_all modl)
                   @ ([LF] @ use_select modl (''domain '' @ name domain));
          literal_base = (if suffix = ''dec'' then ''3.14'' else ''2'')
      in (out_path, body @ ([LF] @ ''subject = '' @ literal_base @ suffix @ [LF]) @ smoke_subject))"

definition literal_test :: "string \<Rightarrow> DomainDef \<Rightarrow> string \<Rightarrow> file_write" where
  "literal_test modl domain lit =
     (let mod_segs = module_segments modl;
          dom_dir = mod_segs @ [''domain_'' @ sanitize_segment (name domain)];
          dom_mod_prefix = [''integrationTests'', ''stdlib''] @ mod_segs
                             @ [''domain_'' @ sanitize_segment (name domain)];
          case_name = ''literal_'' @ sanitize_segment lit;
          test_module = join ''.'' (dom_mod_prefix @ [case_name]);
          out_path = dom_dir @ [case_name @ ''.aivi''];
          body = header test_module @ ([LF] @ ''use aivi'' @ [LF] @ use_testlib) @ ([LF] @ use_all modl)
                   @ ([LF] @ use_select modl (''domain '' @ name domain))
      in (out_path, body @ ([LF] @ ''subject = '' @ lit @ [LF]) @ smoke_subject))"

text \<open>\<^verbatim>\<open>domain_tests\<close>: the writes of its two loops, in order.\<close>

definition domain_tests :: "string \<Rightarrow> string \<Rightarrow> DomainDef \<Rightarrow> file_write list" where
  "domain_tests modl aivi_src domain =
     map (suffix_test modl domain) (templates domain)
     @ map (literal_test modl domain) (named_literals domain)"

subsection \<open>The driver\<close>

text \<open>The decimal numeral of \<^verbatim>\<open>f"{generated}"\<close>.\<close>

fun str_nat :: "nat \<Rightarrow> string" where
  "str_nat n = (if n < 10 then [char_of (48 + n)] else str_nat (n div 10) @ [char_of (48 + n mod 10)])"

declare str_nat.simps [simp del]

text \<open>
  What a run leaves behind: the writes it made, in order, the lines it printed, and the
  exception that ended it, if any.
\<close>

record outcome =
  written :: "file_write list"
  printed :: "string list"
  raised :: "py_error option"

text \<open>
  The loop over the exports of one module: the tests counted and the writes made, for the
  exports from the current one on.
\<close>

fun export_loop ::
  "string \<Rightarrow> string list \<Rightarrow> string set \<Rightarrow> record_types \<Rightarrow> string set \<Rightarrow> string set
     \<Rightarrow> nat \<times> file_write list" where
  "export_loop modl [] type_defs record_types class_defs ctor_exports = (0, [])"
| "export_loop modl (export # exports) type_defs record_types class_defs ctor_exports =
     (if startswith export ''domain '' then
        export_loop modl exports type_defs record_types class_defs ctor_exports
      else if export \<in> class_defs then
        export_loop modl exports type_defs record_types class_defs ctor_exports
      else
        (case export_loop modl exports type_defs record_types class_defs ctor_exports of
           (generated, ws) \<Rightarrow>
             (generated + 1,
              (case basic_export_test modl export type_defs record_types ctor_exports of
                 None \<Rightarrow> [] | Some w \<Rightarrow> [w]) @ ws)))"

text \<open>The body of the driver's loop for one file whose markers were found.\<close>

definition module_tests :: "string \<Rightarrow> string \<Rightarrow> nat \<times> file_write list" where
  "module_tests modl aivi_src =
     (let type_defs = parse_type_defs aivi_src;
          record_types = parse_record_type_aliases aivi_src;
          class_defs = parse_class_defs aivi_src;
          ctor_exports = parse_ctor_exports aivi_src
      in case export_loop modl (split_exports aivi_src) type_defs record_types class_defs
                ctor_exports of
           (generated, ws) \<Rightarrow>
             (generated, ws @ concat (map (domain_tests modl aivi_src) (parse_domain_defs aivi_src))))"

text \<open>
  The driver's loop over the sorted files, each with its text.  \<open>root\<close> is the directory
  \<^verbatim>\<open>ROOT\<close> of the script.
\<close>

definition OUT :: "string \<Rightarrow> string" where
  "OUT root = root @ ''/integration-tests/stdlib''"

definition STDLIB_SRC :: "string \<Rightarrow> string" where
  "STDLIB_SRC root = root @ ''/crates/aivi/src/stdlib''"

fun main_loop :: "string \<Rightarrow> (string \<times> string) list \<Rightarrow> nat \<Rightarrow> file_write list \<Rightarrow> outcome" where
  "main_loop root [] generated ws =
     \<lparr>written = ws,
      printed = [''generated '' @ str_nat generated @ '' export tests under '' @ OUT root],
      raised = None\<rparr>"
| "main_loop root ((rs_name, rs_text) # files) generated ws =
     (if rs_name = ''mod.rs'' then main_loop root files generated ws
      else (case parse_module_name rs_text of
              Inl e \<Rightarrow> \<lparr>written = ws, printed = [], raised = Some e\<rparr>
            | Inr modl \<Rightarrow>
                (case parse_aivi_source rs_text of
                   Inl e \<Rightarrow> \<lparr>written = ws, printed = [], raised = Some e\<rparr>
                 | Inr aivi_src \<Rightarrow>
                     (case module_tests modl aivi_src of
                        (n, ws') \<Rightarrow> main_loop root files (generated + n) (ws @ ws')))))"

text \<open>
  \<^verbatim>\<open>main\<close>.  Its input is the directory \<^verbatim>\<open>STDLIB_SRC\<close>: \<open>None\<close> when it does not exist,
  else the files that \<^verbatim>\<open>glob("*.rs")\<close> yields, in the order the file system lists them,
  each with its name and its text.
\<close>

definition main :: "string \<Rightarrow> (string \<times> string) list option \<Rightarrow> outcome" where
  "main root stdlib =
     (case stdlib of
        None \<Rightarrow> \<lparr>written = [], printed = [], raised = Some (SystemExit (''missing '' @ STDLIB_SRC root))\<rparr>
      | Some listing \<Rightarrow> main_loop root (sort_key fst listing) 0 [])"

text \<open>The output tree after a list of writes: a later write to a path replaces an earlier one.\<close>

definition apply_writes :: "file_write list \<Rightarrow> (string list \<rightharpoonup> string) \<Rightarrow> (string list \<rightharpoonup> string)" where
  "apply_writes ws tree = fold (\<lambda>(path, text) t. t(path \<mapsto> text)) ws tree"


subsection \<open>Vocabulary of the properties\<close>

text \<open>A test file binds \<^verbatim>\<open>subject\<close> to an expression and ends with the smoke test of it.\<close>

definition binds_subject :: "string \<Rightarrow> string \<Rightarrow> bool" where
  "binds_subject text expr = endswith text ([LF] @ ''subject = '' @ expr @ [LF] @ smoke_subject)"

text \<open>
  The literal that the specification gives for a suffix: the base magnitude (\<^verbatim>\<open>3.14\<close> for
  the decimal suffix \<^verbatim>\<open>dec\<close>, else \<^verbatim>\<open>2\<close>), then the suffix.
\<close>

definition suffix_literal :: "string \<Rightarrow> string" where
  "suffix_literal suffix = (if suffix = ''dec'' then ''3.14'' else ''2'') @ suffix"

text \<open>
  The depth that \<^verbatim>\<open>_split_top_level_commas\<close> keeps, after one more character, and the
  texts it does not split when it reads them from that depth.
\<close>

definition depth_step :: "int \<Rightarrow> char \<Rightarrow> int" where
  "depth_step depth ch =
     (if ch \<in> set ''([{'' then depth + 1 else if ch \<in> set '')]}'' then max 0 (depth - 1) else depth)"

fun no_top_comma :: "int \<Rightarrow> string \<Rightarrow> bool" where
  "no_top_comma depth [] = True"
| "no_top_comma depth (ch # s) =
     (\<not> (ch = CHR '','' \<and> depth_step depth ch = 0) \<and> no_top_comma (depth_step depth ch) s)"

text \<open>
  The brace count of \<^verbatim>\<open>parse_domain_defs\<close> stays positive through all the given lines.
\<close>

fun never_closes :: "int \<Rightarrow> string list \<Rightarrow> bool" where
  "never_closes brace [] = True"
| "never_closes brace (cur # rest) =
     (0 < brace + int (count_list cur CHR ''{'') - int (count_list cur CHR ''}'')
      \<and> never_closes (brace + int (count_list cur CHR ''{'') - int (count_list cur CHR ''}'')) rest)"

text \<open>
  An input file with both markers: the module \<^verbatim>\<open>aivi.example\<close>, whose source is the one
  line \<^verbatim>\<open>export e\<close>.
\<close>

definition good_file :: "string \<Rightarrow> string" where
  "good_file e = ''pub const MODULE_NAME: &str = '' @ [DQ] @ ''aivi.example'' @ [DQ] @ '';'' @ [LF]
       @ ''pub const SOURCE: &str = r#'' @ [DQ] @ ''export '' @ e @ [DQ] @ ''#;''"



text \<open>
  The depth that \<^verbatim>\<open>_split_top_level_commas\<close> has reached when it has read a text from
  depth zero.
\<close>

definition depth_after :: "string \<Rightarrow> int" where
  "depth_after a = foldl depth_step 0 a"

text \<open>
  The states of the outer loop of \<^verbatim>\<open>parse_domain_defs\<close>: \<open>reaches lines i out\<close> when the
  loop, started at the first line with no domain, comes to the top of its body with the
  index \<open>i\<close> and the domains \<open>out\<close>.  A line that does not open a domain moves it to the
  next line; a line that opens one moves it behind the block that the inner loop reads.
\<close>

inductive reaches :: "string list \<Rightarrow> nat \<Rightarrow> DomainDef list \<Rightarrow> bool" for lines where
  start: "reaches lines 0 []"
| skip: "reaches lines i out \<Longrightarrow> i < length lines \<Longrightarrow> re_match rx_domain (lines ! i) = None
     \<Longrightarrow> reaches lines (i + 1) out"
| block: "reaches lines i out \<Longrightarrow> i < length lines \<Longrightarrow> re_match rx_domain (lines ! i) = Some m
     \<Longrightarrow> block_loop lines (i + 1) 1 [] = (block, i')
     \<Longrightarrow> reaches lines i' (out @ [make_domain (group 1 m) (strip (group 2 m)) block])"

text \<open>
  A source with two domain blocks: the first is closed, the braces of the second never
  return to depth zero.
\<close>

definition two_domains :: string where
  "two_domains = ''domain A over Int = {'' @ [LF] @ ''  1s = S 1'' @ [LF] @ ''}'' @ [LF]
     @ ''domain B over Text = {'' @ [LF] @ ''  1ms = M 1'' @ [LF] @ ''  f = { a''"

text \<open>
  What an input file may lack.  \<open>occurs_in p s\<close>: the text \<open>p\<close> occurs in \<open>s\<close>.  The
  module-name marker is \<^verbatim>\<open>MODULE_NAME:\<close>, \<^verbatim>\<open>&str\<close>, \<^verbatim>\<open>=\<close> and a non-empty name in double
  quotes, with any white space between them.  The source block opens with
  \<^verbatim>\<open>pub const SOURCE: &str = r#"\<close> and closes with \<^verbatim>\<open>"#;\<close>; it lacks its close delimiter
  when none follows an open delimiter.
\<close>

definition occurs_in :: "string \<Rightarrow> string \<Rightarrow> bool" where
  "occurs_in p s = (\<exists>a b. s = a @ p @ b)"

definition has_module_marker :: "string \<Rightarrow> bool" where
  "has_module_marker s =
     (\<exists>a w1 w2 w3 nm b.
        s = a @ ''MODULE_NAME:'' @ w1 @ ''&str'' @ w2 @ ''='' @ w3 @ [DQ] @ nm @ [DQ] @ b
        \<and> (\<forall>c \<in> set w1. py_isspace c) \<and> (\<forall>c \<in> set w2. py_isspace c) \<and> (\<forall>c \<in> set w3. py_isspace c)
        \<and> nm \<noteq> [] \<and> DQ \<notin> set nm)"

definition lacks_terminator :: "string \<Rightarrow> bool" where
  "lacks_terminator s = (\<forall>a b. s = a @ source_marker @ b \<longrightarrow> \<not> occurs_in source_terminator b)"

text \<open>
  The message for the first marker that a file lacks, in the order module name, open
  delimiter, close delimiter; \<open>None\<close> for a file that has all three.  The files of a list are
  well marked when each of them is \<^verbatim>\<open>mod.rs\<close> or lacks none.
\<close>

definition missing_marker :: "string \<Rightarrow> py_error option" where
  "missing_marker s =
     (if \<not> has_module_marker s then Some (ValueError ''missing MODULE_NAME'')
      else if \<not> occurs_in source_marker s then Some (ValueError ''missing SOURCE marker'')
      else if lacks_terminator s then Some (ValueError ''missing SOURCE terminator'')
      else None)"

definition well_marked :: "(string \<times> string) list \<Rightarrow> bool" where
  "well_marked files = (\<forall>f \<in> set files. fst f = ''mod.rs'' \<or> missing_marker (snd f) = None)"

text \<open>
  Two malformed input files: one with the module-name marker and no source block, one
  whose source block is not closed.
\<close>

definition file_without_source :: string where
  "file_without_source = ''pub const MODULE_NAME: &str = '' @ [DQ] @ ''aivi.example'' @ [DQ] @ '';''"

definition file_without_terminator :: string where
  "file_without_terminator = file_without_source @ [LF]
       @ ''pub const SOURCE: &str = r#'' @ [DQ] @ ''export origin'' @ [LF]"

text \<open>A pattern matches at a position of a text, whatever it captures.\<close>

definition rx_ok :: "rx list \<Rightarrow> string \<Rightarrow> string \<Rightarrow> nat list \<Rightarrow> string list \<Rightarrow> bool" where
  "rx_ok r pre rest opens caps = (rx_match r pre rest opens caps \<noteq> None)"

section \<open>Properties\<close>

subsection \<open>Constructor exports\<close>

lemma spans_rest_subset: "(pre', rest') \<in> set (spans p pre rest) \<Longrightarrow> set rest' \<subseteq> set rest"
  by (induction rest arbitrary: pre) (auto split: if_splits)

lemma first_some_None: "(\<And>x. x \<in> set xs \<Longrightarrow> f x = None) \<Longrightarrow> first_some f xs = None"
  by (induction xs) auto

text \<open>The pattern of \<^verbatim>\<open>parse_ctor_exports\<close> matches no line without a backslash.\<close>

lemma ctor_pattern_needs_backslash:
  assumes "BSL \<notin> set s"
  shows "re_match rx_ctor s = None"
proof (cases s)
  case Nil
  then show ?thesis by (simp add: re_match_def rx_ctor_def)
next
  case (Cons c cs)
  have "first_some (\<lambda>(pre', rest'). rx_match (GClose # Lit [BSL, CHR ''b''] # r) pre' rest' [0] [])
          (rev (spans is_ident [c] cs)) = None" for r
  proof (rule first_some_None)
    fix x assume x: "x \<in> set (rev (spans is_ident [c] cs))"
    obtain pre' rest' where pr: "x = (pre', rest')" by (cases x)
    with x have "set rest' \<subseteq> set cs" using spans_rest_subset [of pre' rest' is_ident "[c]" cs] by simp
    with assms Cons have "BSL \<notin> set rest'" by auto
    then have "\<not> startswith rest' [BSL, CHR ''b'']"
      by (cases rest') (auto simp: startswith_def)
    with pr show "(case x of (pre', rest') \<Rightarrow> rx_match (GClose # Lit [BSL, CHR ''b''] # r) pre' rest' [0] []) = None"
      by simp
  qed
  with Cons show ?thesis by (simp add: re_match_def rx_ctor_def)
qed

lemma splitlines_aux_chars: "l \<in> set (splitlines_aux cur s) \<Longrightarrow> set l \<subseteq> set cur \<union> set s"
  by (induction cur s rule: splitlines_aux.induct) (auto split: if_splits)

lemma strip_chars_subset: "set (strip s) \<subseteq> set s"
proof -
  have "set (strip s) = set (dropWhile py_isspace (rev (dropWhile py_isspace s)))" by (simp add: strip_def)
  also have "\<dots> \<subseteq> set (rev (dropWhile py_isspace s))" by (meson set_dropWhileD subsetI)
  also have "\<dots> \<subseteq> set s" using set_dropWhileD by fastforce
  finally show ?thesis .
qed

text \<open>So the constructor set of a source without a backslash is empty.\<close>

lemma parse_ctor_exports_without_backslash:
  assumes "BSL \<notin> set aivi_source"
  shows "parse_ctor_exports aivi_source = {}"
proof -
  have "ctors_of_line line = []" if "line \<in> set (splitlines aivi_source)" for line
  proof -
    from that have "set line \<subseteq> set aivi_source"
      using splitlines_aux_chars [of line "[]" aivi_source] by (simp add: splitlines_def)
    with assms strip_chars_subset [of line] have "BSL \<notin> set (strip line)" by auto
    then have "re_match rx_ctor (strip line) = None" by (rule ctor_pattern_needs_backslash)
    then show ?thesis by (simp add: ctors_of_line_def Let_def)
  qed
  then show ?thesis by (simp add: parse_ctor_exports_def)
qed

text \<open>
  C1.  For the declaration \<^verbatim>\<open>ColumnType = IntType | BoolType | Varchar Int\<close> the constructor
  set should hold \<^verbatim>\<open>IntType\<close>, \<^verbatim>\<open>BoolType\<close> and \<^verbatim>\<open>Varchar\<close>, and the export
  \<^verbatim>\<open>IntType\<close> should get a test that binds \<^verbatim>\<open>subject = IntType\<close>.  The script computes the
  empty constructor set for that declaration, so the export \<^verbatim>\<open>IntType\<close> gets the
  type-reference test \<^verbatim>\<open>Ref = IntType\<close>, with no subject binding.
\<close>

theorem C1_constructor_set_is_empty:
  "parse_ctor_exports ''ColumnType = IntType | BoolType | Varchar Int'' = {}
   \<and> basic_export_test ''aivi.database'' ''IntType'' type_defs record_types
         (parse_ctor_exports ''ColumnType = IntType | BoolType | Varchar Int'') =
       Some ([''aivi'', ''database'', ''IntType.aivi''],
         ''@no_prelude'' @ [LF] @ ''module integrationTests.stdlib.aivi.database.IntType'' @ [LF]
         @ [LF] @ ''use aivi'' @ [LF] @ ''use aivi.testing (assert)'' @ [LF]
         @ [LF] @ ''use aivi.database'' @ [LF]
         @ [LF] @ ''Ref = IntType'' @ [LF]
         @ [LF] @ ''@test'' @ [LF] @ ''smoke = effect {'' @ [LF] @ ''  _ <- assert True'' @ [LF]
         @ ''}'' @ [LF])"
proof -
  have ctors: "parse_ctor_exports ''ColumnType = IntType | BoolType | Varchar Int'' = {}"
    by code_simp
  have "basic_export_test ''aivi.database'' ''IntType'' type_defs record_types {} =
       Some ([''aivi'', ''database'', ''IntType.aivi''],
         ''@no_prelude'' @ [LF] @ ''module integrationTests.stdlib.aivi.database.IntType'' @ [LF]
         @ [LF] @ ''use aivi'' @ [LF] @ ''use aivi.testing (assert)'' @ [LF]
         @ [LF] @ ''use aivi.database'' @ [LF]
         @ [LF] @ ''Ref = IntType'' @ [LF]
         @ [LF] @ ''@test'' @ [LF] @ ''smoke = effect {'' @ [LF] @ ''  _ <- assert True'' @ [LF]
         @ ''}'' @ [LF])"
    by (simp add: basic_export_test_def module_segments_def sanitize_segment_def split_char_def
        strip_def strip_chars_def py_isspace_def code_def is_ident_def is_alpha_def is_upper_def
        is_lower_def is_digit_def py_isdigit_def header_def use_testlib_def use_all_def
        startswith_def is_upper_name_def re_match_def smoke_ref_def LF_def Let_def)
  with ctors show ?thesis by simp
qed

subsection \<open>Suffix literals\<close>

lemma binds_subject_intro:
  assumes "text = body @ line @ smoke_subject" and "line = [LF] @ ''subject = '' @ expr @ [LF]"
  shows "binds_subject text expr"
  using assms by (simp add: binds_subject_def endswith_def)

lemma suffix_template_digit:
  assumes "is_suffix_template e"
  shows "\<exists>c cs. e = c # cs \<and> is_digit c"
proof (cases e)
  case Nil
  with assms show ?thesis by (simp add: is_suffix_template_def re_match_def)
next
  case (Cons c cs)
  with assms show ?thesis by (cases "is_digit c") (auto simp: is_suffix_template_def re_match_def)
qed

lemma upper_name_upper:
  assumes "is_upper_name e"
  shows "\<exists>c cs. e = c # cs \<and> is_upper c"
  using assms by (cases e) (auto simp: is_upper_name_def re_match_def split: if_splits)

lemma digit_not_upper: "is_digit c \<Longrightarrow> \<not> is_upper c"
  by (auto simp: is_digit_def is_upper_def Let_def)

lemma digit_not_d: "is_digit c \<Longrightarrow> c \<noteq> CHR ''d''"
  by (auto simp: is_digit_def code_def Let_def)

lemma suffix_template_plain:
  assumes "is_suffix_template e"
  shows "\<not> startswith e ''domain '' \<and> \<not> is_upper_name e"
proof -
  from suffix_template_digit [OF assms] obtain c cs where e: "e = c # cs" and d: "is_digit c" by blast
  have "\<not> startswith e ''domain ''" using e digit_not_d [OF d] by (auto simp: startswith_def)
  moreover have "\<not> is_upper_name e" using upper_name_upper [of e] e digit_not_upper [OF d] by auto
  ultimately show ?thesis by simp
qed

text \<open>
  C8.  The test of a suffix template binds \<^verbatim>\<open>subject\<close> to the base magnitude followed by
  the template without its leading digits, and so does the test of an export of the
  digit-prefixed suffix shape; the base is \<^verbatim>\<open>3.14\<close> for the suffix \<^verbatim>\<open>dec\<close> and
  \<^verbatim>\<open>2\<close> otherwise.  The tests of a domain start with one such test per template, in
  order.  A domain with the template \<^verbatim>\<open>1ms\<close> gets the test \<^verbatim>\<open>subject = 2ms\<close>.
\<close>

theorem C8_suffix_literal_subject:
  "binds_subject (snd (suffix_test modl domain tpl)) (suffix_literal (strip_leading_digits tpl))
   \<and> map snd (take (length (templates domain)) (domain_tests modl aivi_src domain))
       = map (\<lambda>tpl. snd (suffix_test modl domain tpl)) (templates domain)
   \<and> (is_suffix_template export_name \<longrightarrow>
        (\<exists>path content. basic_export_test modl export_name type_defs record_types ctor_exports = Some (path, content)
           \<and> binds_subject content (suffix_literal (strip_leading_digits export_name))))
   \<and> map (\<lambda>d. (templates d, domain_tests ''aivi.duration'' aivi_src d))
         (parse_domain_defs (''domain Duration over Int = {'' @ [LF] @ ''  1ms = Millis 1'' @ [LF] @ ''}''))
    = [([''1ms''], [([''aivi'', ''duration'', ''domain_Duration'', ''suffix_ms.aivi''],
         ''@no_prelude'' @ [LF] @ ''module integrationTests.stdlib.aivi.duration.domain_Duration.suffix_ms'' @ [LF]
         @ [LF] @ ''use aivi'' @ [LF] @ ''use aivi.testing (assert)'' @ [LF]
         @ [LF] @ ''use aivi.duration'' @ [LF]
         @ [LF] @ ''use aivi.duration (domain Duration)'' @ [LF]
         @ [LF] @ ''subject = 2ms'' @ [LF]
         @ [LF] @ ''@test'' @ [LF] @ ''smoke = effect {'' @ [LF] @ ''  _ <- pure subject'' @ [LF]
         @ ''  _ <- assert True'' @ [LF] @ ''}'' @ [LF])])]"
proof (intro conjI impI)
  show "binds_subject (snd (suffix_test modl domain tpl)) (suffix_literal (strip_leading_digits tpl))"
    unfolding suffix_test_def Let_def snd_conv
    by (rule binds_subject_intro, rule refl) (simp add: suffix_literal_def)
next
  show "map snd (take (length (templates domain)) (domain_tests modl aivi_src domain))
       = map (\<lambda>tpl. snd (suffix_test modl domain tpl)) (templates domain)"
    by (simp add: domain_tests_def)
next
  assume a: "is_suffix_template export_name"
  from suffix_template_plain [OF a]
  have n1: "\<not> startswith export_name ''domain ''" and n2: "\<not> is_upper_name export_name" by simp_all
  obtain path content where
    eq: "basic_export_test modl export_name type_defs record_types ctor_exports = Some (path, content)"
    and content: "content = snd (the (basic_export_test modl export_name type_defs record_types ctor_exports))"
    unfolding basic_export_test_def Let_def using n1 n2 by simp
  have "binds_subject content (suffix_literal (strip_leading_digits export_name))"
    unfolding content basic_export_test_def Let_def
    apply (simp only: n1 n2 a if_True if_False option.sel snd_conv)
    apply (rule binds_subject_intro, rule refl)
    apply (simp add: suffix_literal_def)
    done
  with eq show "\<exists>path content. basic_export_test modl export_name type_defs record_types ctor_exports = Some (path, content)
           \<and> binds_subject content (suffix_literal (strip_leading_digits export_name))"
    by blast
next
  show "map (\<lambda>d. (templates d, domain_tests ''aivi.duration'' aivi_src d))
         (parse_domain_defs (''domain Duration over Int = {'' @ [LF] @ ''  1ms = Millis 1'' @ [LF] @ ''}''))
    = [([''1ms''], [([''aivi'', ''duration'', ''domain_Duration'', ''suffix_ms.aivi''],
         ''@no_prelude'' @ [LF] @ ''module integrationTests.stdlib.aivi.duration.domain_Duration.suffix_ms'' @ [LF]
         @ [LF] @ ''use aivi'' @ [LF] @ ''use aivi.testing (assert)'' @ [LF]
         @ [LF] @ ''use aivi.duration'' @ [LF]
         @ [LF] @ ''use aivi.duration (domain Duration)'' @ [LF]
         @ [LF] @ ''subject = 2ms'' @ [LF]
         @ [LF] @ ''@test'' @ [LF] @ ''smoke = effect {'' @ [LF] @ ''  _ <- pure subject'' @ [LF]
         @ ''  _ <- assert True'' @ [LF] @ ''}'' @ [LF])])]"
    by code_simp
qed

theorem C8_suffix_literal_subject_witness:
  "is_suffix_template ''1ms''
   \<and> (\<exists>path content. basic_export_test ''aivi.duration'' ''1ms'' {} [] {} = Some (path, content)
           \<and> binds_subject content ''2ms'')
   \<and> binds_subject (snd (suffix_test ''aivi.duration'' (make_domain ''Duration'' ''Int'' [''  1ms = Millis 1'']) ''1ms'')) ''2ms''"
proof -
  have a: "is_suffix_template ''1ms''" by code_simp
  have b: "suffix_literal (strip_leading_digits ''1ms'') = ''2ms''" by code_simp
  show ?thesis
    using a b C8_suffix_literal_subject [of "''aivi.duration''" "make_domain ''Duration'' ''Int'' [''  1ms = Millis 1'']" "''1ms''" "[]" "''1ms''" "{}" "[]" "{}"]
    by simp
qed

subsection \<open>Tuples\<close>

lemma split_loop_Cons:
  "split_loop depth cur (ch # s) =
     (if ch = CHR '','' \<and> depth_step depth ch = 0 then strip (rev cur) # split_loop (depth_step depth ch) [] s
      else split_loop (depth_step depth ch) (ch # cur) s)"
  by (auto simp add: depth_step_def Let_def)

lemma split_loop_whole:
  "no_top_comma depth s \<Longrightarrow>
   split_loop depth cur s = (if strip (rev cur @ s) \<noteq> [] then [strip (rev cur @ s)] else [])"
proof (induction s arbitrary: depth cur)
  case Nil
  then show ?case by (simp add: Let_def)
next
  case (Cons ch s)
  from Cons.prems have a: "\<not> (ch = CHR '','' \<and> depth_step depth ch = 0)"
    and b: "no_top_comma (depth_step depth ch) s" by simp_all
  have "split_loop depth cur (ch # s) = split_loop (depth_step depth ch) (ch # cur) s"
    using a by (simp only: split_loop_Cons if_False)
  also have "\<dots> = (if strip (rev (ch # cur) @ s) \<noteq> [] then [strip (rev (ch # cur) @ s)] else [])"
    by (rule Cons.IH [OF b])
  finally show ?case by simp
qed

lemma no_top_comma_append:
  "no_top_comma depth (a @ b) = (no_top_comma depth a \<and> no_top_comma (foldl depth_step depth a) b)"
  by (induction a arbitrary: depth) auto

lemma bracket_not_space: "ch \<in> set ''([{)]},'' \<Longrightarrow> \<not> py_isspace ch"
  by (auto simp: py_isspace_def code_def)

lemma space_depth_step:
  assumes "py_isspace ch"
  shows "depth_step depth ch = depth \<and> ch \<noteq> CHR '',''"
proof -
  from assms bracket_not_space [of ch] have "ch \<notin> set ''([{)]},''" by blast
  then show ?thesis by (simp add: depth_step_def)
qed

lemma no_top_comma_dropWhile:
  "no_top_comma depth q \<Longrightarrow> no_top_comma depth (dropWhile py_isspace q)"
  by (induction q) (auto simp: space_depth_step)

lemma rev_dropWhile_prefix: "\<exists>z. q = rev (dropWhile P (rev q)) @ z"
proof -
  have "rev q = takeWhile P (rev q) @ dropWhile P (rev q)" by simp
  then have "q = rev (takeWhile P (rev q) @ dropWhile P (rev q))" by (metis rev_rev_ident)
  then show ?thesis by (metis rev_append)
qed

lemma no_top_comma_strip: assumes "no_top_comma depth q" shows "no_top_comma depth (strip q)"
proof -
  have a: "no_top_comma depth (dropWhile py_isspace q)" by (rule no_top_comma_dropWhile [OF assms])
  obtain z where "dropWhile py_isspace q = strip q @ z"
    unfolding strip_def using rev_dropWhile_prefix by blast
  with a show ?thesis by (simp add: no_top_comma_append)
qed

lemma strip_shape: "strip q = [] \<or> (\<not> py_isspace (hd (strip q)) \<and> \<not> py_isspace (last (strip q)))"
proof (cases "strip q = []")
  case True
  then show ?thesis by simp
next
  case False
  let ?a = "dropWhile py_isspace q"
  let ?b = "dropWhile py_isspace (rev ?a)"
  have s: "strip q = rev ?b" by (simp add: strip_def)
  with False have b: "?b \<noteq> []" by simp
  then have "\<not> py_isspace (hd ?b)" by (rule hd_dropWhile)
  then have l: "\<not> py_isspace (last (strip q))" using b s by (simp add: last_rev)
  have a: "?a \<noteq> []"
  proof
    assume "?a = []"
    then have "?b = []" by (simp only: rev.simps dropWhile.simps)
    with b show False by simp
  qed
  then have ha: "\<not> py_isspace (hd ?a)" by (rule hd_dropWhile)
  obtain z where z: "?a = strip q @ z" unfolding strip_def using rev_dropWhile_prefix by blast
  with False have "hd ?a = hd (strip q)" by simp
  with ha l show ?thesis by simp
qed

lemma strip_fixed: assumes "s \<noteq> []" "\<not> py_isspace (hd s)" "\<not> py_isspace (last s)" shows "strip s = s"
proof -
  from assms obtain c cs where c: "s = c # cs" by (cases s) auto
  with assms have "dropWhile py_isspace s = s" by simp
  moreover have "dropWhile py_isspace (rev s) = rev s"
  proof (cases "rev s")
    case Nil
    with assms(1) show ?thesis by simp
  next
    case (Cons d ds)
    have "hd (rev s) = last s" by (rule hd_rev)
    with Cons assms(3) have "\<not> py_isspace d" by simp
    with Cons show ?thesis by simp
  qed
  ultimately show ?thesis by (simp add: strip_def)
qed

lemma strip_Nil: "strip [] = []"
  by (simp add: strip_def)

lemma strip_strip: "strip (strip q) = strip q"
proof (cases "strip q = []")
  case True
  then show ?thesis by (simp only: strip_Nil)
next
  case False
  with strip_shape [of q] show ?thesis by (intro strip_fixed) simp_all
qed

lemma split_loop_parts:
  "no_top_comma 0 (rev cur) \<Longrightarrow> foldl depth_step 0 (rev cur) = depth \<Longrightarrow>
   p \<in> set (split_loop depth cur s) \<Longrightarrow> \<exists>q. p = strip q \<and> no_top_comma 0 q"
proof (induction s arbitrary: depth cur)
  case Nil
  then show ?case by (auto simp: Let_def split: if_splits)
next
  case (Cons ch s)
  show ?case
  proof (cases "ch = CHR '','' \<and> depth_step depth ch = 0")
    case True
    with Cons.prems(3) have "p = strip (rev cur) \<or> p \<in> set (split_loop 0 [] s)"
      unfolding split_loop_Cons by auto
    then show ?thesis
    proof
      assume "p = strip (rev cur)"
      with Cons.prems(1) show ?thesis by blast
    next
      assume "p \<in> set (split_loop 0 [] s)"
      then show ?thesis using Cons.IH [of "[]" 0] by simp
    qed
  next
    case False
    with Cons.prems(3) have m: "p \<in> set (split_loop (depth_step depth ch) (ch # cur) s)"
      unfolding split_loop_Cons by auto
    have "no_top_comma 0 (rev (ch # cur))"
      using Cons.prems(1,2) False by (simp add: no_top_comma_append)
    moreover have "foldl depth_step 0 (rev (ch # cur)) = depth_step depth ch"
      using Cons.prems(2) by simp
    ultimately show ?thesis using Cons.IH [of "ch # cur" "depth_step depth ch"] m by blast
  qed
qed

lemma split_parts_atomic:
  assumes "p \<in> set (split_top_level_commas s)" and "p \<noteq> []"
  shows "split_top_level_commas p = [p]"
proof -
  from assms(1) obtain q where q: "p = strip q" and n: "no_top_comma 0 q"
    unfolding split_top_level_commas_def using split_loop_parts [of "[]" 0 p s] by auto
  have "no_top_comma 0 p" unfolding q by (rule no_top_comma_strip [OF n])
  then have "split_loop 0 [] p = (if strip p \<noteq> [] then [strip p] else [])"
    using split_loop_whole [of 0 p "[]"] by simp
  moreover have "strip p = p" unfolding q by (rule strip_strip)
  ultimately show ?thesis using assms(2) by (simp add: split_top_level_commas_def)
qed

text \<open>The rule for a parenthesised type with at least two top-level components.\<close>

lemma tuple_rule:
  assumes t: "normalize ty = t" and r: "map_of record_types t = None"
    and p: "startswith t ''(''" "endswith t '')''"
    and i: "split_top_level_commas (strip (take (length t - 2) (drop 1 t))) = items" "2 \<le> length items"
  shows "sample_expr_for_type (Suc levels) ty record_types domain_templates domain_named_literals =
     (case map_result (\<lambda>item. case sample_expr_for_type levels item record_types domain_templates
                                       domain_named_literals of
                                  Inl e \<Rightarrow> Inl e | Inr expr \<Rightarrow> Inr (or_unit expr)) items of
        Inl e \<Rightarrow> Inl e
      | Inr exprs \<Rightarrow> Inr (Some (''('' @ join '', '' exprs @ '')'')))"
proof -
  from p(1) obtain t' where t': "t = CHR ''('' # t'" by (cases t) (auto simp: startswith_def)
  have n: "t \<noteq> ''Int''" "t \<noteq> ''Float''" "t \<noteq> ''Bool''" "t \<noteq> ''Text''" "t \<noteq> ''Char''" "t \<noteq> ''Unit''"
    "t \<noteq> ''Bytes''" "\<not> startswith t ''Option ''" "\<not> startswith t ''List ''"
    unfolding t' by (simp_all add: startswith_def)
  show ?thesis
    using t r p i n by (simp add: Let_def split: sum.splits)
qed

lemma split_loop_cut:
  "no_top_comma depth a \<Longrightarrow> foldl depth_step depth a = 0 \<Longrightarrow>
   split_loop depth cur (a @ CHR '','' # b) = strip (rev cur @ a) # split_loop 0 [] b"
proof (induction a arbitrary: depth cur)
  case Nil
  then have d: "depth = 0" by simp
  have "depth_step 0 CHR '','' = 0" by (simp add: depth_step_def)
  then show ?case unfolding d by (simp add: split_loop_Cons del: split_loop.simps)
next
  case (Cons ch a)
  from Cons.prems have n: "\<not> (ch = CHR '','' \<and> depth_step depth ch = 0)"
    and t: "no_top_comma (depth_step depth ch) a" and f: "foldl depth_step (depth_step depth ch) a = 0"
    by simp_all
  have "split_loop depth cur ((ch # a) @ CHR '','' # b)
          = split_loop (depth_step depth ch) (ch # cur) (a @ CHR '','' # b)"
    using n by (simp only: append_Cons split_loop_Cons if_False)
  also have "\<dots> = strip (rev (ch # cur) @ a) # split_loop 0 [] b" by (rule Cons.IH [OF t f])
  finally show ?case by simp
qed

text \<open>
  C5.  \<^verbatim>\<open>_split_top_level_commas\<close> splits a text at its commas of depth zero, and only
  there, the depth counting parentheses, brackets and braces alike: a text that has no comma
  of depth zero is one component (none when it is blank); a text whose first comma of depth
  zero comes after \<open>a\<close> gives the component \<open>a\<close>, stripped, and then the components of the
  rest; every component that the splitting returns is unchanged by splitting it again.  A
  type text in parentheses that is not the name of a record shape and has at least two such
  components is synthesized as the tuple of the expressions synthesized for its components
  (\<^verbatim>\<open>Unit\<close> for a component that has none).  So, when none of the type texts involved is
  the name of a record shape, \<^verbatim>\<open>(Int, Text)\<close> is synthesized as \<^verbatim>\<open>(1, "x")\<close>,
  \<^verbatim>\<open>(Int, (Bool, Text))\<close> as \<^verbatim>\<open>(1, (True, "x"))\<close>, and
  \<^verbatim>\<open>([Int, Int], {a: Int, b: Int}, Int)\<close>, whose commas inside brackets and braces do not
  split, as \<^verbatim>\<open>(Unit, Unit, 1)\<close>.
\<close>

theorem C5_tuple_components:
  "(fst ` set record_types \<inter> {''Int'', ''Bool'', ''Text'', ''(Int, Text)'', ''(Bool, Text)'', ''(Int, (Bool, Text))''} = {} \<longrightarrow>
      sample_expr_for_type (Suc (Suc levels)) ''(Int, Text)'' record_types domain_templates domain_named_literals
        = Inr (Some (''(1, '' @ [DQ] @ ''x'' @ [DQ] @ '')''))
    \<and> sample_expr_for_type (Suc (Suc (Suc levels))) ''(Int, (Bool, Text))'' record_types domain_templates domain_named_literals
        = Inr (Some (''(1, (True, '' @ [DQ] @ ''x'' @ [DQ] @ ''))'')))
   \<and> split_top_level_commas ''Int, (Bool, Text)'' = [''Int'', ''(Bool, Text)'']
   \<and> (\<forall>p \<in> set (split_top_level_commas s). p \<noteq> [] \<longrightarrow> split_top_level_commas p = [p])
   \<and> (no_top_comma 0 a \<and> depth_after a = 0
        \<longrightarrow> split_top_level_commas (a @ CHR '','' # b) = strip a # split_top_level_commas b)
   \<and> (no_top_comma 0 a
        \<longrightarrow> split_top_level_commas a = (if strip a = [] then [] else [strip a]))
   \<and> (map_of record_types (normalize ty) = None
        \<and> startswith (normalize ty) ''('' \<and> endswith (normalize ty) '')''
        \<and> split_top_level_commas (strip (take (length (normalize ty) - 2) (drop 1 (normalize ty)))) = items
        \<and> 2 \<le> length items
      \<longrightarrow> sample_expr_for_type (Suc levels) ty record_types domain_templates domain_named_literals =
           (case map_result (\<lambda>item. case sample_expr_for_type levels item record_types domain_templates
                                             domain_named_literals of
                                        Inl e \<Rightarrow> Inl e | Inr expr \<Rightarrow> Inr (or_unit expr)) items of
              Inl e \<Rightarrow> Inl e
            | Inr exprs \<Rightarrow> Inr (Some (''('' @ join '', '' exprs @ '')''))))
   \<and> depth_after ''f(a[b{c'' = 3 \<and> depth_after ''(a)]}'' = 0
   \<and> no_top_comma 0 ''[a, {b, (c, d)}]'' \<and> \<not> no_top_comma 0 ''[a], b''
   \<and> split_top_level_commas ''Map Text [Int, Int], {a: Int, b: Int}, (A, B), C''
       = [''Map Text [Int, Int]'', ''{a: Int, b: Int}'', ''(A, B)'', ''C'']
   \<and> split_top_level_commas ''a), b'' = [''a)'', ''b'']
   \<and> split_top_level_commas ''[a, b'' = [''[a, b'']
   \<and> (fst ` set record_types \<inter> {''Int'', ''[Int, Int]'', ''{a: Int, b: Int}'', ''([Int, Int], {a: Int, b: Int}, Int)''} = {} \<longrightarrow>
      sample_expr_for_type (Suc (Suc levels)) ''([Int, Int], {a: Int, b: Int}, Int)'' record_types domain_templates domain_named_literals
        = Inr (Some ''(Unit, Unit, 1)''))"
proof (intro conjI impI ballI)
  assume a: "fst ` set record_types \<inter> {''Int'', ''Bool'', ''Text'', ''(Int, Text)'', ''(Bool, Text)'', ''(Int, (Bool, Text))''} = {}"
  have m: "map_of record_types k = None"
    if "k \<in> {''Int'', ''Bool'', ''Text'', ''(Int, Text)'', ''(Bool, Text)'', ''(Int, (Bool, Text))''}" for k
    using a that by (metis disjoint_iff map_of_eq_None_iff)
  have r: "map_of record_types ''Int'' = None" "map_of record_types ''Bool'' = None"
    "map_of record_types ''Text'' = None" "map_of record_types ''(Int, Text)'' = None"
    "map_of record_types ''(Bool, Text)'' = None" "map_of record_types ''(Int, (Bool, Text))'' = None"
    by (rule m, simp)+
  have n: "normalize ''Int'' = ''Int''" "normalize ''Bool'' = ''Bool''" "normalize ''Text'' = ''Text''"
    "normalize ''(Int, Text)'' = ''(Int, Text)''" "normalize ''(Bool, Text)'' = ''(Bool, Text)''"
    "normalize ''(Int, (Bool, Text))'' = ''(Int, (Bool, Text))''"
    by code_simp+
  have s: "split_top_level_commas (strip ''Int, Text'') = [''Int'', ''Text'']"
    "split_top_level_commas (strip ''Bool, Text'') = [''Bool'', ''Text'']"
    "split_top_level_commas (strip ''Int, (Bool, Text)'') = [''Int'', ''(Bool, Text)'']"
    by code_simp+
  have prim: "sample_expr_for_type (Suc k) ''Int'' record_types domain_templates domain_named_literals = Inr (Some ''1'')"
    "sample_expr_for_type (Suc k) ''Bool'' record_types domain_templates domain_named_literals = Inr (Some ''True'')"
    "sample_expr_for_type (Suc k) ''Text'' record_types domain_templates domain_named_literals = Inr (Some ([DQ] @ ''x'' @ [DQ]))"
    for k
    using r n by simp_all
  have bt: "sample_expr_for_type (Suc (Suc k)) ''(Bool, Text)'' record_types domain_templates domain_named_literals
        = Inr (Some (''(True, '' @ [DQ] @ ''x'' @ [DQ] @ '')''))" for k
    by (subst tuple_rule [OF n(5) r(5), where items = "[''Bool'', ''Text'']"])
       (simp_all add: s startswith_def endswith_def prim or_unit_def DQ_def del: sample_expr_for_type.simps)
  show "sample_expr_for_type (Suc (Suc levels)) ''(Int, Text)'' record_types domain_templates domain_named_literals
        = Inr (Some (''(1, '' @ [DQ] @ ''x'' @ [DQ] @ '')''))"
    by (subst tuple_rule [OF n(4) r(4), where items = "[''Int'', ''Text'']"])
       (simp_all add: s startswith_def endswith_def prim or_unit_def DQ_def del: sample_expr_for_type.simps)
  show "sample_expr_for_type (Suc (Suc (Suc levels))) ''(Int, (Bool, Text))'' record_types domain_templates domain_named_literals
        = Inr (Some (''(1, (True, '' @ [DQ] @ ''x'' @ [DQ] @ ''))''))"
    by (subst tuple_rule [OF n(6) r(6), where items = "[''Int'', ''(Bool, Text)'']"])
       (simp_all add: s startswith_def endswith_def prim bt or_unit_def DQ_def del: sample_expr_for_type.simps)
next
  show "split_top_level_commas ''Int, (Bool, Text)'' = [''Int'', ''(Bool, Text)'']" by code_simp
next
  fix p assume "p \<in> set (split_top_level_commas s)" "p \<noteq> []"
  then show "split_top_level_commas p = [p]" by (rule split_parts_atomic)
next
  assume "no_top_comma 0 a \<and> depth_after a = 0"
  then show "split_top_level_commas (a @ CHR '','' # b) = strip a # split_top_level_commas b"
    using split_loop_cut [of 0 a "[]" b] by (simp add: split_top_level_commas_def depth_after_def)
next
  assume "no_top_comma 0 a"
  then show "split_top_level_commas a = (if strip a = [] then [] else [strip a])"
    using split_loop_whole [of 0 a "[]"] by (simp add: split_top_level_commas_def)
next
  assume "map_of record_types (normalize ty) = None
        \<and> startswith (normalize ty) ''('' \<and> endswith (normalize ty) '')''
        \<and> split_top_level_commas (strip (take (length (normalize ty) - 2) (drop 1 (normalize ty)))) = items
        \<and> 2 \<le> length items"
  then show "sample_expr_for_type (Suc levels) ty record_types domain_templates domain_named_literals =
           (case map_result (\<lambda>item. case sample_expr_for_type levels item record_types domain_templates
                                             domain_named_literals of
                                        Inl e \<Rightarrow> Inl e | Inr expr \<Rightarrow> Inr (or_unit expr)) items of
              Inl e \<Rightarrow> Inl e
            | Inr exprs \<Rightarrow> Inr (Some (''('' @ join '', '' exprs @ '')'')))"
    by (intro tuple_rule [where t = "normalize ty"]) simp_all
next
  show "depth_after ''f(a[b{c'' = 3" by code_simp
  show "depth_after ''(a)]}'' = 0" by code_simp
  show "no_top_comma 0 ''[a, {b, (c, d)}]''" by code_simp
  show "\<not> no_top_comma 0 ''[a], b''" by code_simp
  show "split_top_level_commas ''Map Text [Int, Int], {a: Int, b: Int}, (A, B), C''
       = [''Map Text [Int, Int]'', ''{a: Int, b: Int}'', ''(A, B)'', ''C'']" by code_simp
  show "split_top_level_commas ''a), b'' = [''a)'', ''b'']" by code_simp
  show "split_top_level_commas ''[a, b'' = [''[a, b'']" by code_simp
next
  assume a: "fst ` set record_types \<inter> {''Int'', ''[Int, Int]'', ''{a: Int, b: Int}'', ''([Int, Int], {a: Int, b: Int}, Int)''} = {}"
  have m: "map_of record_types k = None"
    if "k \<in> {''Int'', ''[Int, Int]'', ''{a: Int, b: Int}'', ''([Int, Int], {a: Int, b: Int}, Int)''}" for k
    using a that by (metis disjoint_iff map_of_eq_None_iff)
  have r: "map_of record_types ''Int'' = None" "map_of record_types ''[Int, Int]'' = None"
    "map_of record_types ''{a: Int, b: Int}'' = None"
    "map_of record_types ''([Int, Int], {a: Int, b: Int}, Int)'' = None"
    by (rule m, simp)+
  have n: "normalize ''Int'' = ''Int''" "normalize ''[Int, Int]'' = ''[Int, Int]''"
    "normalize ''{a: Int, b: Int}'' = ''{a: Int, b: Int}''"
    "normalize ''([Int, Int], {a: Int, b: Int}, Int)'' = ''([Int, Int], {a: Int, b: Int}, Int)''"
    by code_simp+
  have s: "split_top_level_commas (strip ''[Int, Int], {a: Int, b: Int}, Int'')
             = [''[Int, Int]'', ''{a: Int, b: Int}'', ''Int'']"
    by code_simp
  have leaf: "sample_expr_for_type (Suc k) ''Int'' record_types domain_templates domain_named_literals = Inr (Some ''1'')"
    "sample_expr_for_type (Suc k) ''[Int, Int]'' record_types domain_templates domain_named_literals = Inr None"
    "sample_expr_for_type (Suc k) ''{a: Int, b: Int}'' record_types domain_templates domain_named_literals = Inr None"
    for k
    using r n by (simp_all add: startswith_def endswith_def)
  show "sample_expr_for_type (Suc (Suc levels)) ''([Int, Int], {a: Int, b: Int}, Int)'' record_types domain_templates domain_named_literals
        = Inr (Some ''(Unit, Unit, 1)'')"
    by (subst tuple_rule [OF n(4) r(4), where items = "[''[Int, Int]'', ''{a: Int, b: Int}'', ''Int'']"])
       (simp_all add: s startswith_def endswith_def leaf or_unit_def del: sample_expr_for_type.simps)
qed

theorem C5_tuple_components_witness:
  "fst ` set [(''Point'', [(''x'', ''Int''), (''y'', ''Int'')])] \<inter> {''Int'', ''Bool'', ''Text'', ''(Int, Text)'', ''(Bool, Text)'', ''(Int, (Bool, Text))''} = {}
   \<and> sample_expr_for_type 2 ''(Int, Text)'' [(''Point'', [(''x'', ''Int''), (''y'', ''Int'')])] [] []
        = Inr (Some (''(1, '' @ [DQ] @ ''x'' @ [DQ] @ '')''))
   \<and> sample_expr_for_type 3 ''(Int, (Bool, Text))'' [(''Point'', [(''x'', ''Int''), (''y'', ''Int'')])] [] []
        = Inr (Some (''(1, (True, '' @ [DQ] @ ''x'' @ [DQ] @ ''))''))
   \<and> ''(Bool, Text)'' \<in> set (split_top_level_commas ''Int, (Bool, Text)'')
   \<and> split_top_level_commas ''(Bool, Text)'' = [''(Bool, Text)'']
   \<and> no_top_comma 0 ''Map Text [Int, Int]'' \<and> depth_after ''Map Text [Int, Int]'' = 0
   \<and> split_top_level_commas (''Map Text [Int, Int]'' @ CHR '','' # '' {a: Int, b: Int}'')
       = [''Map Text [Int, Int]'', ''{a: Int, b: Int}'']
   \<and> fst ` set [(''Point'', [(''x'', ''Int''), (''y'', ''Int'')])] \<inter> {''Int'', ''[Int, Int]'', ''{a: Int, b: Int}'', ''([Int, Int], {a: Int, b: Int}, Int)''} = {}
   \<and> sample_expr_for_type 2 ''([Int, Int], {a: Int, b: Int}, Int)'' [(''Point'', [(''x'', ''Int''), (''y'', ''Int'')])] [] []
        = Inr (Some ''(Unit, Unit, 1)'')
   \<and> map_of [(''Point'', [(''x'', ''Int''), (''y'', ''Int'')])] (normalize ''( Point ,  Point )'') = None
   \<and> split_top_level_commas (strip (take (length (normalize ''( Point ,  Point )'') - 2)
         (drop 1 (normalize ''( Point ,  Point )'')))) = [''Point'', ''Point'']
   \<and> sample_expr_for_type 3 ''( Point ,  Point )'' [(''Point'', [(''x'', ''Int''), (''y'', ''Int'')])] [] []
        = Inr (Some ''({ x: 1, y: 1 }, { x: 1, y: 1 })'')"
proof -
  let ?recs = "[(''Point'', [(''x'', ''Int''), (''y'', ''Int'')])]"
  have a: "fst ` set ?recs \<inter> {''Int'', ''Bool'', ''Text'', ''(Int, Text)'', ''(Bool, Text)'', ''(Int, (Bool, Text))''} = {}"
    by simp
  have a': "fst ` set ?recs \<inter> {''Int'', ''[Int, Int]'', ''{a: Int, b: Int}'', ''([Int, Int], {a: Int, b: Int}, Int)''} = {}"
    by simp
  have b: "split_top_level_commas ''Int, (Bool, Text)'' = [''Int'', ''(Bool, Text)'']" by code_simp
  have c: "no_top_comma 0 ''Map Text [Int, Int]''" "depth_after ''Map Text [Int, Int]'' = 0" by code_simp+
  have d: "strip ''Map Text [Int, Int]'' = ''Map Text [Int, Int]''"
    "split_top_level_commas '' {a: Int, b: Int}'' = [''{a: Int, b: Int}'']" by code_simp+
  have e: "map_of ?recs (normalize ''( Point ,  Point )'') = None"
    "startswith (normalize ''( Point ,  Point )'') ''(''" "endswith (normalize ''( Point ,  Point )'') '')''"
    "split_top_level_commas (strip (take (length (normalize ''( Point ,  Point )'') - 2)
         (drop 1 (normalize ''( Point ,  Point )'')))) = [''Point'', ''Point'']"
    by code_simp+
  have f: "sample_expr_for_type 2 ''Point'' ?recs [] [] = Inr (Some ''{ x: 1, y: 1 }'')" by code_simp
  have n: "(2::nat) = Suc (Suc 0)" "(3::nat) = Suc (Suc (Suc 0))" by simp_all
  note inst = C5_tuple_components [of ?recs 0 "[]" "[]" "''Int, (Bool, Text)''" "''Map Text [Int, Int]''"
      "'' {a: Int, b: Int}''"]
  have g: "sample_expr_for_type 3 ''( Point ,  Point )'' ?recs [] []
        = Inr (Some ''({ x: 1, y: 1 }, { x: 1, y: 1 })'')"
    using e f C5_tuple_components [where record_types = ?recs and ty = "''( Point ,  Point )''"
        and items = "[''Point'', ''Point'']" and levels = 2 and domain_templates = "[]"
        and domain_named_literals = "[]"]
    by (simp add: or_unit_def del: sample_expr_for_type.simps)
  have h: "sample_expr_for_type 2 ''(Int, Text)'' ?recs [] [] = Inr (Some (''(1, '' @ [DQ] @ ''x'' @ [DQ] @ '')''))"
    "sample_expr_for_type 3 ''(Int, (Bool, Text))'' ?recs [] [] = Inr (Some (''(1, (True, '' @ [DQ] @ ''x'' @ [DQ] @ ''))''))"
    using a inst [THEN conjunct1] unfolding n by (simp_all del: sample_expr_for_type.simps)
  have h': "sample_expr_for_type 2 ''([Int, Int], {a: Int, b: Int}, Int)'' ?recs [] [] = Inr (Some ''(Unit, Unit, 1)'')"
    using a' inst unfolding n by (simp del: sample_expr_for_type.simps)
  have k: "''(Bool, Text)'' \<in> set (split_top_level_commas ''Int, (Bool, Text)'')" using b by simp
  have i: "split_top_level_commas ''(Bool, Text)'' = [''(Bool, Text)'']"
    using k inst by (simp del: sample_expr_for_type.simps)
  have j: "split_top_level_commas (''Map Text [Int, Int]'' @ CHR '','' # '' {a: Int, b: Int}'')
       = [''Map Text [Int, Int]'', ''{a: Int, b: Int}'']"
    using c d inst by (simp del: sample_expr_for_type.simps)
  show ?thesis
    by (intro conjI) (fact a a' h h' k i c j e g)+
qed

subsection \<open>The delta type\<close>

text \<open>
  C7.  When \<^verbatim>\<open>Delta\<close> is not the name of a record shape, a type text that normalizes to
  \<^verbatim>\<open>Delta\<close> is synthesized as \<^verbatim>\<open>2\<close> followed by the first suffix template without its
  leading digits; without templates, as the first named literal; with neither, as \<open>None\<close>.
\<close>

theorem C7_delta_sample:
  assumes "normalize ty = ''Delta''" and "map_of record_types ''Delta'' = None"
  shows "sample_expr_for_type (Suc levels) ty record_types domain_templates domain_named_literals =
     Inr (case domain_templates of
            tpl # _ \<Rightarrow> Some (''2'' @ strip_leading_digits tpl)
          | [] \<Rightarrow> (case domain_named_literals of lit # _ \<Rightarrow> Some lit | [] \<Rightarrow> None))"
  using assms
  by (simp add: startswith_def endswith_def split: list.splits)

theorem C7_delta_sample_witness:
  "normalize '' Delta '' = ''Delta''
   \<and> map_of [(''Point'', [(''x'', ''Int'')])] ''Delta'' = None
   \<and> sample_expr_for_type 1 '' Delta '' [(''Point'', [(''x'', ''Int'')])] [''10ms'', ''1s''] [''eom''] = Inr (Some ''2ms'')
   \<and> sample_expr_for_type 1 '' Delta '' [(''Point'', [(''x'', ''Int'')])] [] [''eom''] = Inr (Some ''eom'')
   \<and> sample_expr_for_type 1 '' Delta '' [(''Point'', [(''x'', ''Int'')])] [] [] = Inr None"
proof -
  have a: "normalize '' Delta '' = ''Delta''" by code_simp
  have b: "map_of [(''Point'', [(''x'', ''Int'')])] ''Delta'' = None" by simp
  have c: "strip_leading_digits ''10ms'' = ''ms''" by code_simp
  show ?thesis
    using a b c
      C7_delta_sample [OF a b, of 0 "[''10ms'', ''1s'']" "[''eom'']"]
      C7_delta_sample [OF a b, of 0 "[]" "[''eom'']"]
      C7_delta_sample [OF a b, of 0 "[]" "[]"]
    by (simp del: sample_expr_for_type.simps)
qed

subsection \<open>Domain blocks\<close>

lemma block_loop_open:
  "never_closes brace (drop i lines) \<Longrightarrow> 0 < brace \<Longrightarrow> i \<le> length lines \<Longrightarrow>
   block_loop lines i brace block = (block @ drop i lines, length lines)"
proof (induction lines i brace block rule: block_loop.induct)
  case (1 lines i brace block)
  show ?case
  proof (cases "i < length lines")
    case True
    let ?cur = "lines ! i"
    let ?b = "brace + int (count_list ?cur CHR ''{'') - int (count_list ?cur CHR ''}'')"
    have d: "drop i lines = ?cur # drop (Suc i) lines" using True by (simp add: Cons_nth_drop_Suc)
    with "1.prems"(1) have pos: "0 < ?b" and nc: "never_closes ?b (drop (Suc i) lines)" by simp_all
    have c: "i < length lines \<and> 0 < brace" using True "1.prems"(2) by simp
    have "block_loop lines (i + 1) ?b (if 0 < ?b then block @ [?cur] else block)
            = ((if 0 < ?b then block @ [?cur] else block) @ drop (i + 1) lines, length lines)"
      using "1.IH" [OF c refl refl] nc pos True by simp
    then show ?thesis
      using c pos d by (subst block_loop.simps) (simp add: Let_def)
  next
    case False
    with "1.prems"(3) have "i = length lines" by simp
    then show ?thesis by (subst block_loop.simps) simp
  qed
qed

lemma domain_loop_skip:
  "i \<le> length pre \<Longrightarrow> \<forall>l \<in> set pre. re_match rx_domain l = None \<Longrightarrow>
   domain_loop (pre @ rest) i out = domain_loop (pre @ rest) (length pre) out"
proof (induction "length pre - i" arbitrary: i)
  case 0
  then show ?case by simp
next
  case (Suc n)
  then have lt: "i < length pre" by simp
  then have "re_match rx_domain ((pre @ rest) ! i) = None" using Suc.prems(2) by (simp add: nth_append)
  then have "domain_loop (pre @ rest) i out = domain_loop (pre @ rest) (i + 1) out"
    using lt by (subst domain_loop.simps) simp
  also have "\<dots> = domain_loop (pre @ rest) (length pre) out"
    using Suc.hyps(1) [of "i + 1"] Suc.hyps(2) lt Suc.prems(2) by simp
  finally show ?case .
qed

lemma domain_loop_open_block:
  assumes "re_match rx_domain opening = Some m" and "never_closes 1 body"
  shows "domain_loop (pre @ opening # body) (length pre) out
           = out @ [make_domain (group 1 m) (strip (group 2 m)) body]"
proof -
  let ?lines = "pre @ opening # body"
  have b: "block_loop ?lines (length pre + 1) 1 [] = ([] @ drop (length pre + 1) ?lines, length ?lines)"
    by (rule block_loop_open) (simp_all add: assms)
  have e: "domain_loop ?lines (length ?lines) out' = out'" for out'
    by (subst domain_loop.simps) simp
  show ?thesis
    using assms(1) b e by (subst domain_loop.simps) simp
qed

lemma domain_loop_length:
  "length (domain_loop lines i out) \<le> length out + (length lines - i)"
proof (induction lines i out rule: domain_loop.induct)
  case (1 lines i out)
  show ?case
  proof (cases "i < length lines")
    case False
    then show ?thesis by (subst domain_loop.simps) simp
  next
    case True
    show ?thesis
    proof (cases "re_match rx_domain (lines ! i)")
      case None
      then show ?thesis using True "1.IH"(1) [OF True None] by (subst domain_loop.simps) simp
    next
      case (Some m)
      obtain block i' where bl: "block_loop lines (i + 1) 1 [] = (block, i')" by (cases "block_loop lines (i + 1) 1 []")
      have "i + 1 \<le> snd (block_loop lines (i + 1) 1 [])" by (rule block_loop_index)
      with bl have "i < i'" by simp
      then show ?thesis
        using True Some bl "1.IH"(2) [OF True Some bl [symmetric]]
        by (subst domain_loop.simps) simp
    qed
  qed
qed

lemma reaches_domain_loop: "reaches lines i out \<Longrightarrow> domain_loop lines 0 [] = domain_loop lines i out"
proof (induction rule: reaches.induct)
  case start
  show ?case by simp
next
  case (skip i out)
  have "domain_loop lines i out = domain_loop lines (i + 1) out"
    using skip.hyps(2,3) by (subst domain_loop.simps) simp
  with skip.IH show ?case by simp
next
  case (block i out m block i')
  have "domain_loop lines i out
          = domain_loop lines i' (out @ [make_domain (group 1 m) (strip (group 2 m)) block])"
    using block.hyps(2,3,4) by (subst domain_loop.simps) simp
  with block.IH show ?case by simp
qed

lemma domain_loop_open_block_at:
  assumes "i < length lines" and "re_match rx_domain (lines ! i) = Some m"
    and "never_closes 1 (drop (Suc i) lines)"
  shows "domain_loop lines i out
           = out @ [make_domain (group 1 m) (strip (group 2 m)) (drop (Suc i) lines)]"
proof -
  have l: "lines = take i lines @ lines ! i # drop (Suc i) lines"
    using assms(1) by (rule id_take_nth_drop)
  have "domain_loop (take i lines @ lines ! i # drop (Suc i) lines) (length (take i lines)) out
           = out @ [make_domain (group 1 m) (strip (group 2 m)) (drop (Suc i) lines)]"
    using assms(2,3) by (rule domain_loop_open_block)
  moreover have "length (take i lines) = i" using assms(1) by simp
  ultimately show ?thesis using l by simp
qed

text \<open>
  C10.  \<^verbatim>\<open>parse_domain_defs\<close> is a total function, and it returns at most one domain per
  line.  Whenever its scan comes to a line that opens a domain block, after any lines and
  any blocks before it, and the brace count never returns to zero through the lines that
  follow, the block is all the lines up to the end of the input, exactly one domain is
  added for it to the domains found before, and the scan stops there.
\<close>

theorem C10_open_block_ends_with_input:
  "length (parse_domain_defs src) \<le> length (splitlines src)
   \<and> (splitlines src = pre @ opening # body \<and> (\<forall>l \<in> set pre. re_match rx_domain l = None)
        \<and> re_match rx_domain opening = Some m \<and> never_closes 1 body
      \<longrightarrow> parse_domain_defs src = [make_domain (group 1 m) (strip (group 2 m)) body])
   \<and> (reaches (splitlines src) i out \<and> i < length (splitlines src)
        \<and> re_match rx_domain (splitlines src ! i) = Some m'
        \<and> never_closes 1 (drop (Suc i) (splitlines src))
      \<longrightarrow> parse_domain_defs src
            = out @ [make_domain (group 1 m') (strip (group 2 m')) (drop (Suc i) (splitlines src))])
   \<and> (i < length lines \<and> re_match rx_domain (lines ! i) = Some m'
        \<and> never_closes 1 (drop (Suc i) lines)
      \<longrightarrow> domain_loop lines i out
            = out @ [make_domain (group 1 m') (strip (group 2 m')) (drop (Suc i) lines)])"
proof (intro conjI impI)
  show "length (parse_domain_defs src) \<le> length (splitlines src)"
    unfolding parse_domain_defs_def using domain_loop_length [of "splitlines src" 0 "[]"] by simp
next
  assume a: "splitlines src = pre @ opening # body \<and> (\<forall>l \<in> set pre. re_match rx_domain l = None)
        \<and> re_match rx_domain opening = Some m \<and> never_closes 1 body"
  then have "domain_loop (pre @ opening # body) 0 [] = domain_loop (pre @ opening # body) (length pre) []"
    using domain_loop_skip [of 0 pre "opening # body" "[]"] by simp
  also have "\<dots> = [] @ [make_domain (group 1 m) (strip (group 2 m)) body]"
    using a by (intro domain_loop_open_block) simp_all
  finally show "parse_domain_defs src = [make_domain (group 1 m) (strip (group 2 m)) body]"
    using a by (simp add: parse_domain_defs_def)
next
  assume a: "reaches (splitlines src) i out \<and> i < length (splitlines src)
        \<and> re_match rx_domain (splitlines src ! i) = Some m'
        \<and> never_closes 1 (drop (Suc i) (splitlines src))"
  then have "domain_loop (splitlines src) 0 [] = domain_loop (splitlines src) i out"
    by (intro reaches_domain_loop) simp
  also have "\<dots> = out @ [make_domain (group 1 m') (strip (group 2 m')) (drop (Suc i) (splitlines src))]"
    using a by (intro domain_loop_open_block_at) simp_all
  finally show "parse_domain_defs src
            = out @ [make_domain (group 1 m') (strip (group 2 m')) (drop (Suc i) (splitlines src))]"
    by (simp add: parse_domain_defs_def)
next
  assume "i < length lines \<and> re_match rx_domain (lines ! i) = Some m'
        \<and> never_closes 1 (drop (Suc i) lines)"
  then show "domain_loop lines i out
            = out @ [make_domain (group 1 m') (strip (group 2 m')) (drop (Suc i) lines)]"
    by (intro domain_loop_open_block_at) simp_all
qed

theorem C10_open_block_ends_with_input_witness:
  "splitlines (''x = 1'' @ [LF] @ ''domain D over Int = {'' @ [LF] @ ''  1ms = Millis 1'' @ [LF] @ ''  f = { a'')
     = [''x = 1''] @ ''domain D over Int = {'' # [''  1ms = Millis 1'', ''  f = { a'']
   \<and> re_match rx_domain ''x = 1'' = None
   \<and> re_match rx_domain ''domain D over Int = {'' = Some [''D'', ''Int'']
   \<and> never_closes 1 [''  1ms = Millis 1'', ''  f = { a'']
   \<and> parse_domain_defs (''x = 1'' @ [LF] @ ''domain D over Int = {'' @ [LF] @ ''  1ms = Millis 1'' @ [LF] @ ''  f = { a'')
     = [\<lparr>name = ''D'', carrier = ''Int'', operators = [], templates = [''1ms''], named_literals = []\<rparr>]
   \<and> splitlines two_domains = [''domain A over Int = {'', ''  1s = S 1'', ''}'',
        ''domain B over Text = {'', ''  1ms = M 1'', ''  f = { a'']
   \<and> reaches (splitlines two_domains) 3
        [\<lparr>name = ''A'', carrier = ''Int'', operators = [], templates = [''1s''], named_literals = []\<rparr>]
   \<and> re_match rx_domain (splitlines two_domains ! 3) = Some [''B'', ''Text'']
   \<and> never_closes 1 (drop (Suc 3) (splitlines two_domains))
   \<and> parse_domain_defs two_domains
     = [\<lparr>name = ''A'', carrier = ''Int'', operators = [], templates = [''1s''], named_literals = []\<rparr>,
        \<lparr>name = ''B'', carrier = ''Text'', operators = [], templates = [''1ms''], named_literals = []\<rparr>]"
proof -
  have a: "splitlines (''x = 1'' @ [LF] @ ''domain D over Int = {'' @ [LF] @ ''  1ms = Millis 1'' @ [LF] @ ''  f = { a'')
     = [''x = 1''] @ ''domain D over Int = {'' # [''  1ms = Millis 1'', ''  f = { a'']" by code_simp
  have b: "re_match rx_domain ''x = 1'' = None" by code_simp
  have c: "re_match rx_domain ''domain D over Int = {'' = Some [''D'', ''Int'']" by code_simp
  have d: "never_closes 1 [''  1ms = Millis 1'', ''  f = { a'']" by code_simp
  have e: "make_domain (group 1 [''D'', ''Int'']) (strip (group 2 [''D'', ''Int''])) [''  1ms = Millis 1'', ''  f = { a'']
     = \<lparr>name = ''D'', carrier = ''Int'', operators = [], templates = [''1ms''], named_literals = []\<rparr>" by code_simp
  let ?lines = "[''domain A over Int = {'', ''  1s = S 1'', ''}'',
        ''domain B over Text = {'', ''  1ms = M 1'', ''  f = { a'']"
  have l: "splitlines two_domains = ?lines" by code_simp
  have m0: "re_match rx_domain (?lines ! 0) = Some [''A'', ''Int'']" by code_simp
  have b0: "block_loop ?lines (0 + 1) 1 [] = ([''  1s = S 1''], 3)" by code_simp
  have a0: "make_domain (group 1 [''A'', ''Int'']) (strip (group 2 [''A'', ''Int''])) [''  1s = S 1'']
     = \<lparr>name = ''A'', carrier = ''Int'', operators = [], templates = [''1s''], named_literals = []\<rparr>" by code_simp
  have "reaches ?lines 3 ([] @ [make_domain (group 1 [''A'', ''Int'']) (strip (group 2 [''A'', ''Int''])) [''  1s = S 1'']])"
    by (rule reaches.block [OF reaches.start _ m0 b0]) simp
  then have r: "reaches (splitlines two_domains) 3
        [\<lparr>name = ''A'', carrier = ''Int'', operators = [], templates = [''1s''], named_literals = []\<rparr>]"
    using l a0 by simp
  have m3: "re_match rx_domain (splitlines two_domains ! 3) = Some [''B'', ''Text'']"
    unfolding l by code_simp
  have n3: "never_closes 1 (drop (Suc 3) (splitlines two_domains))" unfolding l by code_simp
  have b3: "make_domain (group 1 [''B'', ''Text'']) (strip (group 2 [''B'', ''Text''])) (drop (Suc 3) ?lines)
     = \<lparr>name = ''B'', carrier = ''Text'', operators = [], templates = [''1ms''], named_literals = []\<rparr>" by code_simp
  have i3: "3 < length (splitlines two_domains)" unfolding l by simp
  have first: "parse_domain_defs (''x = 1'' @ [LF] @ ''domain D over Int = {'' @ [LF] @ ''  1ms = Millis 1'' @ [LF] @ ''  f = { a'')
     = [\<lparr>name = ''D'', carrier = ''Int'', operators = [], templates = [''1ms''], named_literals = []\<rparr>]"
    using a b c d e
      C10_open_block_ends_with_input [of "''x = 1'' @ [LF] @ ''domain D over Int = {'' @ [LF] @ ''  1ms = Millis 1'' @ [LF] @ ''  f = { a''"
         "[''x = 1'']" "''domain D over Int = {''" "[''  1ms = Millis 1'', ''  f = { a'']" "[''D'', ''Int'']"]
    by simp
  have second: "parse_domain_defs two_domains
     = [\<lparr>name = ''A'', carrier = ''Int'', operators = [], templates = [''1s''], named_literals = []\<rparr>,
        \<lparr>name = ''B'', carrier = ''Text'', operators = [], templates = [''1ms''], named_literals = []\<rparr>]"
    using r m3 n3 i3 b3 l
      C10_open_block_ends_with_input [where src = two_domains and i = 3 and m' = "[''B'', ''Text'']"
        and out = "[\<lparr>name = ''A'', carrier = ''Int'', operators = [], templates = [''1s''], named_literals = []\<rparr>]"]
    by simp
  show ?thesis using a b c d first l r m3 n3 second by blast
qed

subsection \<open>Record shapes\<close>

text \<open>
  C4.  A record declaration with the two fields \<^verbatim>\<open>p: { x: Int, y: Int }\<close> and
  \<^verbatim>\<open>q: Int\<close> should give two field entries and a literal with the fields \<^verbatim>\<open>p\<close> and
  \<^verbatim>\<open>q\<close>, as \<^verbatim>\<open>_split_top_level_commas\<close> would split its body.  The script splits the
  body at every comma: it records three fields, and the literal has the three fields
  \<^verbatim>\<open>p\<close>, \<^verbatim>\<open>y\<close> and \<^verbatim>\<open>q\<close>.  For the field \<^verbatim>\<open>p: (Int, Text)\<close> it records the type
  text \<^verbatim>\<open>(Int\<close>, and the value of \<^verbatim>\<open>p\<close> is the placeholder although the field type has
  the synthesis \<^verbatim>\<open>(1, "x")\<close>.
\<close>

theorem C4_record_body_split_at_every_comma:
  "parse_record_type_aliases ''R = { p: { x: Int, y: Int }, q: Int }''
     = [(''R'', [(''p'', ''{ x: Int''), (''y'', ''Int }''), (''q'', ''Int'')])]
   \<and> sample_expr_for_type 2 ''R'' (parse_record_type_aliases ''R = { p: { x: Int, y: Int }, q: Int }'') [] []
     = Inr (Some ''{ p: Unit, y: Unit, q: 1 }'')
   \<and> split_top_level_commas ''p: { x: Int, y: Int }, q: Int'' = [''p: { x: Int, y: Int }'', ''q: Int'']
   \<and> parse_record_type_aliases ''Pair = { p: (Int, Text), q: Int }''
     = [(''Pair'', [(''p'', ''(Int''), (''q'', ''Int'')])]
   \<and> sample_expr_for_type 2 ''Pair'' (parse_record_type_aliases ''Pair = { p: (Int, Text), q: Int }'') [] []
     = Inr (Some ''{ p: Unit, q: 1 }'')
   \<and> sample_expr_for_type 2 ''(Int, Text)'' (parse_record_type_aliases ''Pair = { p: (Int, Text), q: Int }'') [] []
     = Inr (Some (''(1, '' @ [DQ] @ ''x'' @ [DQ] @ '')''))"
  by code_simp

subsection \<open>Independence of the record shapes\<close>

lemma basic_export_test_shapes:
  "basic_export_test modl export_name type_defs1 record_types1 ctor_exports
     = basic_export_test modl export_name type_defs2 record_types2 ctor_exports"
  by (simp add: basic_export_test_def)

lemma export_loop_shapes:
  "export_loop modl exports type_defs1 record_types1 class_defs ctor_exports
     = export_loop modl exports type_defs2 record_types2 class_defs ctor_exports"
proof (induction exports)
  case Nil
  show ?case by simp
next
  case (Cons e exports)
  show ?case
    using Cons.IH basic_export_test_shapes [of modl e type_defs1 record_types1 ctor_exports type_defs2 record_types2]
    by (simp split: prod.splits)
qed

text \<open>
  C9.  The test of an export does not depend on the type declarations and record shapes
  that were parsed.  Two module sources with the same exports, classes, constructors and
  domains get the same test files, whatever their record shapes are.
\<close>

theorem C9_exports_ignore_record_shapes:
  "basic_export_test modl export_name type_defs1 record_types1 ctor_exports
     = basic_export_test modl export_name type_defs2 record_types2 ctor_exports
   \<and> (split_exports src1 = split_exports src2 \<and> parse_class_defs src1 = parse_class_defs src2
        \<and> parse_ctor_exports src1 = parse_ctor_exports src2
        \<and> parse_domain_defs src1 = parse_domain_defs src2
      \<longrightarrow> module_tests modl src1 = module_tests modl src2)"
proof (intro conjI impI)
  show "basic_export_test modl export_name type_defs1 record_types1 ctor_exports
     = basic_export_test modl export_name type_defs2 record_types2 ctor_exports"
    by (rule basic_export_test_shapes)
next
  assume a: "split_exports src1 = split_exports src2 \<and> parse_class_defs src1 = parse_class_defs src2
        \<and> parse_ctor_exports src1 = parse_ctor_exports src2
        \<and> parse_domain_defs src1 = parse_domain_defs src2"
  have d: "domain_tests modl src1 = domain_tests modl src2"
    by (rule ext) (simp add: domain_tests_def)
  show "module_tests modl src1 = module_tests modl src2"
    unfolding module_tests_def Let_def
    using a d export_loop_shapes [of modl "split_exports src2" "parse_type_defs src1"
        "parse_record_type_aliases src1" "parse_class_defs src2" "parse_ctor_exports src2"
        "parse_type_defs src2" "parse_record_type_aliases src2"]
    by simp
qed

theorem C9_exports_ignore_record_shapes_witness:
  "split_exports (''export origin'' @ [LF] @ ''Point = { x: Int }'')
     = split_exports (''export origin'' @ [LF] @ ''Point = { x: Text, y: Int }'')
   \<and> parse_class_defs (''export origin'' @ [LF] @ ''Point = { x: Int }'')
     = parse_class_defs (''export origin'' @ [LF] @ ''Point = { x: Text, y: Int }'')
   \<and> parse_ctor_exports (''export origin'' @ [LF] @ ''Point = { x: Int }'')
     = parse_ctor_exports (''export origin'' @ [LF] @ ''Point = { x: Text, y: Int }'')
   \<and> parse_domain_defs (''export origin'' @ [LF] @ ''Point = { x: Int }'')
     = parse_domain_defs (''export origin'' @ [LF] @ ''Point = { x: Text, y: Int }'')
   \<and> parse_record_type_aliases (''export origin'' @ [LF] @ ''Point = { x: Int }'')
     \<noteq> parse_record_type_aliases (''export origin'' @ [LF] @ ''Point = { x: Text, y: Int }'')
   \<and> module_tests ''aivi.example'' (''export origin'' @ [LF] @ ''Point = { x: Int }'')
     = module_tests ''aivi.example'' (''export origin'' @ [LF] @ ''Point = { x: Text, y: Int }'')"
proof -
  let ?s1 = "''export origin'' @ [LF] @ ''Point = { x: Int }''"
  let ?s2 = "''export origin'' @ [LF] @ ''Point = { x: Text, y: Int }''"
  have e1: "split_exports ?s1 = [''origin'']" and e2: "split_exports ?s2 = [''origin'']" by code_simp+
  have c1: "parse_class_defs ?s1 = {}" and c2: "parse_class_defs ?s2 = {}" by code_simp+
  have k1: "parse_ctor_exports ?s1 = {}" and k2: "parse_ctor_exports ?s2 = {}" by code_simp+
  have d1: "parse_domain_defs ?s1 = []" and d2: "parse_domain_defs ?s2 = []" by code_simp+
  have r1: "parse_record_type_aliases ?s1 = [(''Point'', [(''x'', ''Int'')])]"
    and r2: "parse_record_type_aliases ?s2 = [(''Point'', [(''x'', ''Text''), (''y'', ''Int'')])]" by code_simp+
  show ?thesis
    using e1 e2 c1 c2 k1 k2 d1 d2 r1 r2
      C9_exports_ignore_record_shapes [of "''aivi.example''" "''origin''" "{}" "[]" "{}" "{}" "[]" ?s1 ?s2]
    by simp
qed

subsection \<open>The driver: abort\<close>

lemma main_loop_step:
  obtains
    (skip) "rs_name = ''mod.rs''"
      "\<And>files g ws. main_loop root ((rs_name, rs_text) # files) g ws = main_loop root files g ws"
  | (fail) e where "rs_name \<noteq> ''mod.rs''"
      "parse_module_name rs_text = Inl e
         \<or> (\<exists>modl. parse_module_name rs_text = Inr modl) \<and> parse_aivi_source rs_text = Inl e"
      "\<And>files g ws. main_loop root ((rs_name, rs_text) # files) g ws
         = \<lparr>written = ws, printed = [], raised = Some e\<rparr>"
  | (ok) modl aivi_src n ws' where "rs_name \<noteq> ''mod.rs''"
      "parse_module_name rs_text = Inr modl" "parse_aivi_source rs_text = Inr aivi_src"
      "module_tests modl aivi_src = (n, ws')"
      "\<And>files g ws. main_loop root ((rs_name, rs_text) # files) g ws
         = main_loop root files (g + n) (ws @ ws')"
proof (cases "rs_name = ''mod.rs''")
  case True
  then show ?thesis by (intro skip) simp_all
next
  case False
  show ?thesis
  proof (cases "parse_module_name rs_text")
    case (Inl e)
    with False show ?thesis by (intro fail [of e]) simp_all
  next
    case m: (Inr modl)
    show ?thesis
    proof (cases "parse_aivi_source rs_text")
      case (Inl e)
      with False m show ?thesis by (intro fail [of e]) simp_all
    next
      case s: (Inr aivi_src)
      obtain n ws' where t: "module_tests modl aivi_src = (n, ws')" by (cases "module_tests modl aivi_src")
      with False m s show ?thesis by (intro ok [of modl aivi_src n ws']) simp_all
    qed
  qed
qed

lemma main_loop_append:
  "raised (main_loop root pre g ws) = None \<Longrightarrow>
   \<exists>g'. main_loop root (pre @ rest) g ws = main_loop root rest g' (written (main_loop root pre g ws))"
proof (induction pre arbitrary: g ws)
  case Nil
  show ?case by (rule exI [of _ g]) simp
next
  case (Cons f pre)
  obtain rs_name rs_text where f: "f = (rs_name, rs_text)" by (cases f)
  show ?case
  proof (cases rule: main_loop_step [of rs_name root rs_text])
    case skip
    have "main_loop root ((f # pre) @ rest) g ws = main_loop root (pre @ rest) g ws"
      using skip(2) [of "pre @ rest"] f by simp
    moreover have "main_loop root (f # pre) g ws = main_loop root pre g ws"
      using skip(2) [of pre] f by simp
    ultimately show ?thesis using Cons.IH [of g ws] Cons.prems by simp
  next
    case (fail e)
    have "main_loop root (f # pre) g ws = \<lparr>written = ws, printed = [], raised = Some e\<rparr>"
      using fail(3) [of pre] f by simp
    with Cons.prems show ?thesis by simp
  next
    case (ok modl aivi_src n ws')
    have "main_loop root ((f # pre) @ rest) g ws = main_loop root (pre @ rest) (g + n) (ws @ ws')"
      using ok(5) [of "pre @ rest"] f by simp
    moreover have "main_loop root (f # pre) g ws = main_loop root pre (g + n) (ws @ ws')"
      using ok(5) [of pre] f by simp
    ultimately show ?thesis using Cons.IH [of "g + n" "ws @ ws'"] Cons.prems by simp
  qed
qed

lemma parse_errors:
  "parse_module_name rs_text = Inl e \<Longrightarrow> e = ValueError ''missing MODULE_NAME''"
  "parse_aivi_source rs_text = Inl e \<Longrightarrow>
     e = ValueError ''missing SOURCE marker'' \<or> e = ValueError ''missing SOURCE terminator''"
  by (auto simp: parse_module_name_def parse_aivi_source_def Let_def split: option.splits)

lemma main_loop_success:
  "raised (main_loop root files g ws) = None \<Longrightarrow>
   \<exists>n. printed (main_loop root files g ws) = [''generated '' @ str_nat n @ '' export tests under '' @ OUT root]"
proof (induction files arbitrary: g ws)
  case Nil
  show ?case by (rule exI [of _ g]) simp
next
  case (Cons f files)
  obtain rs_name rs_text where f: "f = (rs_name, rs_text)" by (cases f)
  show ?case
  proof (cases rule: main_loop_step [of rs_name root rs_text])
    case skip
    have "main_loop root (f # files) g ws = main_loop root files g ws"
      using skip(2) [of files] f by simp
    with Cons.IH [of g ws] Cons.prems show ?thesis by simp
  next
    case (fail e)
    have "main_loop root (f # files) g ws = \<lparr>written = ws, printed = [], raised = Some e\<rparr>"
      using fail(3) [of files] f by simp
    with Cons.prems show ?thesis by simp
  next
    case (ok modl aivi_src n ws')
    have "main_loop root (f # files) g ws = main_loop root files (g + n) (ws @ ws')"
      using ok(5) [of files] f by simp
    with Cons.IH [of "g + n" "ws @ ws'"] Cons.prems show ?thesis by simp
  qed
qed

lemma startswith_iff: "startswith s p \<longleftrightarrow> (\<exists>b. s = p @ b)"
proof
  assume "startswith s p"
  then have "s = p @ drop (length p) s" by (metis append_take_drop_id startswith_def)
  then show "\<exists>b. s = p @ b" ..
next
  assume "\<exists>b. s = p @ b"
  then show "startswith s p" by (auto simp: startswith_def)
qed

lemma occurs_in_Nil: "occurs_in p [] \<longleftrightarrow> p = []"
  by (auto simp: occurs_in_def)

lemma occurs_in_Cons: "occurs_in p (c # cs) \<longleftrightarrow> startswith (c # cs) p \<or> occurs_in p cs"
proof
  assume "occurs_in p (c # cs)"
  then obtain a b where ab: "c # cs = a @ p @ b" by (auto simp: occurs_in_def)
  show "startswith (c # cs) p \<or> occurs_in p cs"
  proof (cases a)
    case Nil
    with ab show ?thesis by (auto simp: startswith_iff)
  next
    case (Cons x a')
    with ab have "cs = a' @ p @ b" by simp
    then show ?thesis by (auto simp: occurs_in_def)
  qed
next
  assume "startswith (c # cs) p \<or> occurs_in p cs"
  then show "occurs_in p (c # cs)"
  proof
    assume "startswith (c # cs) p"
    then obtain b where "c # cs = [] @ p @ b" by (auto simp: startswith_iff)
    then show ?thesis unfolding occurs_in_def by blast
  next
    assume "occurs_in p cs"
    then obtain a b where "cs = a @ p @ b" by (auto simp: occurs_in_def)
    then have "c # cs = (c # a) @ p @ b" by simp
    then show ?thesis unfolding occurs_in_def by blast
  qed
qed

lemma find_from_None: "find_from p i s = None \<longleftrightarrow> \<not> occurs_in p s"
  by (induction s arbitrary: i) (simp_all add: occurs_in_Nil occurs_in_Cons)

text \<open>A found index is the place of the first occurrence.\<close>

lemma find_from_Some:
  "find_from p i s = Some j \<Longrightarrow>
   \<exists>a b. s = a @ p @ b \<and> j = i + length a \<and> (\<forall>a' b'. s = a' @ p @ b' \<longrightarrow> length a \<le> length a')"
proof (induction s arbitrary: i)
  case Nil
  then have "p = []" "j = i" by (simp_all split: if_splits)
  then show ?case by simp
next
  case (Cons c cs)
  show ?case
  proof (cases "startswith (c # cs) p")
    case True
    then obtain b where b: "c # cs = p @ b" by (auto simp: startswith_iff)
    from True Cons.prems have j: "j = i" by simp
    show ?thesis by (rule exI [of _ "[]"], rule exI [of _ b]) (simp add: b j)
  next
    case False
    with Cons.prems have "find_from p (Suc i) cs = Some j" by simp
    from Cons.IH [OF this] obtain a b where ab: "cs = a @ p @ b" "j = Suc i + length a"
      and first: "\<forall>a' b'. cs = a' @ p @ b' \<longrightarrow> length a \<le> length a'" by blast
    have "c # cs = (c # a) @ p @ b" using ab by simp
    moreover have "j = i + length (c # a)" using ab by simp
    moreover have "length (c # a) \<le> length a'" if "c # cs = a' @ p @ b'" for a' b'
    proof (cases a')
      case Nil
      with that False show ?thesis by (auto simp: startswith_iff)
    next
      case (Cons x a'')
      with that have "cs = a'' @ p @ b'" by simp
      with first have "length a \<le> length a''" by blast
      with Cons show ?thesis by simp
    qed
    ultimately show ?thesis by blast
  qed
qed

lemma parse_aivi_source_no_marker:
  assumes "\<not> occurs_in source_marker s"
  shows "parse_aivi_source s = Inl (ValueError ''missing SOURCE marker'')"
  using assms find_from_None [of source_marker 0 s] by (simp add: parse_aivi_source_def find_def)

lemma suffix_of_later:
  assumes "a @ m @ b = a' @ m @ b'" and "length a \<le> length a'"
  shows "\<exists>z. b = z @ b'"
proof -
  have "(a @ m) @ b = (a' @ m) @ b'" using assms(1) by simp
  then consider us where "a @ m = (a' @ m) @ us" "us @ b = b'"
    | us where "(a @ m) @ us = a' @ m" "b = us @ b'"
    unfolding append_eq_append_conv2 by blast
  then show ?thesis
  proof cases
    case 1
    from 1(1) have "length (a @ m) = length ((a' @ m) @ us)" by simp
    with assms(2) have "us = []" by simp
    with 1(2) show ?thesis by simp
  next
    case 2
    then show ?thesis by blast
  qed
qed

lemma parse_aivi_source_cases:
  assumes "occurs_in source_marker s"
  shows "if lacks_terminator s then parse_aivi_source s = Inl (ValueError ''missing SOURCE terminator'')
         else (\<exists>src. parse_aivi_source s = Inr src)"
proof -
  from assms find_from_None [of source_marker 0 s] obtain i where i: "find_from source_marker 0 s = Some i"
    by auto
  from find_from_Some [OF i] obtain a b where s: "s = a @ source_marker @ b" and ia: "i = length a"
    and first: "\<forall>a' b'. s = a' @ source_marker @ b' \<longrightarrow> length a \<le> length a'" by auto
  have d: "drop (i + length source_marker) s = b" using s ia by simp
  have l: "lacks_terminator s \<longleftrightarrow> \<not> occurs_in source_terminator b"
  proof
    assume "lacks_terminator s"
    with s show "\<not> occurs_in source_terminator b" unfolding lacks_terminator_def by blast
  next
    assume n: "\<not> occurs_in source_terminator b"
    show "lacks_terminator s"
      unfolding lacks_terminator_def
    proof (intro allI impI)
      fix a' b' assume s': "s = a' @ source_marker @ b'"
      with first have "length a \<le> length a'" by blast
      with s s' obtain z where z: "b = z @ b'" using suffix_of_later [of a source_marker b a' b'] by auto
      show "\<not> occurs_in source_terminator b'"
      proof
        assume "occurs_in source_terminator b'"
        then obtain x y where "b' = x @ source_terminator @ y" by (auto simp: occurs_in_def)
        with z have "b = (z @ x) @ source_terminator @ y" by simp
        with n show False unfolding occurs_in_def by blast
      qed
    qed
  qed
  show ?thesis
  proof (cases "find_from source_terminator (i + length source_marker) b")
    case None
    then have "\<not> occurs_in source_terminator b" by (simp add: find_from_None)
    moreover have "parse_aivi_source s = Inl (ValueError ''missing SOURCE terminator'')"
      using i None d by (simp add: parse_aivi_source_def find_def Let_def)
    ultimately show ?thesis using l by simp
  next
    case (Some j)
    then have "occurs_in source_terminator b" using find_from_None [of source_terminator "i + length source_marker" b] by simp
    moreover have "\<exists>src. parse_aivi_source s = Inr src"
      using i Some d by (simp add: parse_aivi_source_def find_def Let_def)
    ultimately show ?thesis using l by simp
  qed
qed

lemma first_some_iff: "first_some f xs = None \<longleftrightarrow> (\<forall>x \<in> set xs. f x = None)"
  by (induction xs) (auto split: option.splits)

lemma first_some_iff': "first_some f xs \<noteq> None \<longleftrightarrow> (\<exists>x \<in> set xs. f x \<noteq> None)"
  by (induction xs) (auto split: option.splits)

lemma spans_iff:
  "(pre', rest') \<in> set (spans p pre rest)
     \<longleftrightarrow> (\<exists>w. rest = w @ rest' \<and> pre' = rev w @ pre \<and> (\<forall>c \<in> set w. p c))"
proof (induction rest arbitrary: pre)
  case Nil
  show ?case by auto
next
  case (Cons c cs)
  show ?case
  proof
    assume "(pre', rest') \<in> set (spans p pre (c # cs))"
    then consider "pre' = pre" "rest' = c # cs" | "p c" "(pre', rest') \<in> set (spans p (c # pre) cs)"
      by (auto split: if_splits)
    then show "\<exists>w. c # cs = w @ rest' \<and> pre' = rev w @ pre \<and> (\<forall>c \<in> set w. p c)"
    proof cases
      case 1
      then show ?thesis by (intro exI [of _ "[]"]) simp
    next
      case 2
      from 2(2) Cons.IH [of "c # pre"] obtain w where "cs = w @ rest'" "pre' = rev w @ c # pre" "\<forall>c \<in> set w. p c"
        by blast
      with 2(1) show ?thesis by (intro exI [of _ "c # w"]) simp
    qed
  next
    assume "\<exists>w. c # cs = w @ rest' \<and> pre' = rev w @ pre \<and> (\<forall>c \<in> set w. p c)"
    then obtain w where w: "c # cs = w @ rest'" "pre' = rev w @ pre" "\<forall>c \<in> set w. p c" by blast
    show "(pre', rest') \<in> set (spans p pre (c # cs))"
    proof (cases w)
      case Nil
      with w have "rest' = c # cs" "pre' = pre" by simp_all
      then show ?thesis by simp
    next
      case (Cons x w')
      with w have "x = c" "cs = w' @ rest'" "pre' = rev w' @ c # pre" "p c" "\<forall>c \<in> set w'. p c" by simp_all
      then show ?thesis using Cons.IH [of "c # pre"] by auto
    qed
  qed
qed

lemma tl_spans_iff:
  "(pre', rest') \<in> set (tl (spans p pre rest))
     \<longleftrightarrow> (\<exists>w. w \<noteq> [] \<and> rest = w @ rest' \<and> pre' = rev w @ pre \<and> (\<forall>c \<in> set w. p c))"
proof (cases rest)
  case Nil
  then show ?thesis by simp
next
  case (Cons c cs)
  show ?thesis
  proof
    assume "(pre', rest') \<in> set (tl (spans p pre rest))"
    with Cons have pc: "p c" and "(pre', rest') \<in> set (spans p (c # pre) cs)" by (auto split: if_splits)
    then obtain w where "cs = w @ rest'" "pre' = rev w @ c # pre" "\<forall>c \<in> set w. p c"
      using spans_iff [of pre' rest' p "c # pre" cs] by blast
    with pc Cons show "\<exists>w. w \<noteq> [] \<and> rest = w @ rest' \<and> pre' = rev w @ pre \<and> (\<forall>c \<in> set w. p c)"
      by (intro exI [of _ "c # w"]) simp
  next
    assume "\<exists>w. w \<noteq> [] \<and> rest = w @ rest' \<and> pre' = rev w @ pre \<and> (\<forall>c \<in> set w. p c)"
    then obtain x w' where "rest = (x # w') @ rest'" "pre' = rev (x # w') @ pre" "\<forall>c \<in> set (x # w'). p c"
      by (metis neq_Nil_conv)
    with Cons have "x = c" "cs = w' @ rest'" "pre' = rev w' @ c # pre" "p c" "\<forall>c \<in> set w'. p c" by simp_all
    then show "(pre', rest') \<in> set (tl (spans p pre rest))"
      using Cons spans_iff [of pre' rest' p "c # pre" cs] by auto
  qed
qed

lemma rx_Nil: "rx_ok [] pre rest opens caps = True"
  by (simp add: rx_ok_def)

lemma rx_Lit:
  "rx_ok (Lit l # r) pre rest opens caps
     \<longleftrightarrow> (\<exists>rest'. rest = l @ rest' \<and> rx_ok r (rev l @ pre) rest' opens caps)"
  unfolding rx_ok_def by (auto simp: startswith_iff simp del: not_None_eq)

lemma rx_first_some:
  "first_some (\<lambda>(pre', rest'). rx_match r pre' rest' opens caps) xs \<noteq> None
     \<longleftrightarrow> (\<exists>pre' rest'. (pre', rest') \<in> set xs \<and> rx_ok r pre' rest' opens caps)"
proof -
  have "first_some (\<lambda>(pre', rest'). rx_match r pre' rest' opens caps) xs \<noteq> None
     \<longleftrightarrow> (\<exists>x \<in> set xs. (case x of (pre', rest') \<Rightarrow> rx_match r pre' rest' opens caps) \<noteq> None)"
    by (rule first_some_iff')
  also have "\<dots> \<longleftrightarrow> (\<exists>pre' rest'. (pre', rest') \<in> set xs \<and> rx_ok r pre' rest' opens caps)"
    unfolding rx_ok_def by (simp only: Bex_def split_paired_Ex prod.case)
  finally show ?thesis .
qed

lemma rx_Star:
  "rx_ok (Star p # r) pre rest opens caps
     \<longleftrightarrow> (\<exists>w rest'. rest = w @ rest' \<and> (\<forall>c \<in> set w. p c) \<and> rx_ok r (rev w @ pre) rest' opens caps)"
proof -
  have "rx_ok (Star p # r) pre rest opens caps
     \<longleftrightarrow> (\<exists>pre' rest'. (pre', rest') \<in> set (rev (spans p pre rest)) \<and> rx_ok r pre' rest' opens caps)"
    unfolding rx_first_some [symmetric] by (simp add: rx_ok_def del: not_None_eq)
  also have "\<dots> \<longleftrightarrow> (\<exists>w rest'. rest = w @ rest' \<and> (\<forall>c \<in> set w. p c) \<and> rx_ok r (rev w @ pre) rest' opens caps)"
    unfolding set_rev spans_iff by blast
  finally show ?thesis .
qed

lemma rx_Plus:
  "rx_ok (Plus p # r) pre rest opens caps
     \<longleftrightarrow> (\<exists>w rest'. w \<noteq> [] \<and> rest = w @ rest' \<and> (\<forall>c \<in> set w. p c)
            \<and> rx_ok r (rev w @ pre) rest' opens caps)"
proof -
  have "rx_ok (Plus p # r) pre rest opens caps
     \<longleftrightarrow> (\<exists>pre' rest'. (pre', rest') \<in> set (rev (tl (spans p pre rest))) \<and> rx_ok r pre' rest' opens caps)"
    unfolding rx_first_some [symmetric] by (simp add: rx_ok_def del: not_None_eq)
  also have "\<dots> \<longleftrightarrow> (\<exists>w rest'. w \<noteq> [] \<and> rest = w @ rest' \<and> (\<forall>c \<in> set w. p c)
            \<and> rx_ok r (rev w @ pre) rest' opens caps)"
    unfolding set_rev tl_spans_iff by blast
  finally show ?thesis .
qed

lemma rx_GOpen: "rx_ok (GOpen # r) pre rest opens caps \<longleftrightarrow> rx_ok r pre rest (length pre # opens) caps"
  by (simp add: rx_ok_def del: not_None_eq)

lemma rx_GClose:
  "rx_ok (GClose # r) pre rest (start # opens) caps
     \<longleftrightarrow> rx_ok r pre rest opens (caps @ [rev (take (length pre - start) pre)])"
  by (simp add: rx_ok_def del: not_None_eq)

lemma marker_pattern_match:
  "rx_ok [Lit l1, Star p1, Lit l2, Star p2, Lit l3, Star p3, Lit l4, GOpen, Plus q, GClose, Lit l5]
       pre rest [] []
     \<longleftrightarrow> (\<exists>w1 w2 w3 nm b.
            rest = l1 @ w1 @ l2 @ w2 @ l3 @ w3 @ l4 @ nm @ l5 @ b
            \<and> (\<forall>c \<in> set w1. p1 c) \<and> (\<forall>c \<in> set w2. p2 c) \<and> (\<forall>c \<in> set w3. p3 c)
            \<and> nm \<noteq> [] \<and> (\<forall>c \<in> set nm. q c))"
  unfolding rx_Lit rx_Star rx_Plus rx_GOpen rx_GClose rx_Nil
  apply (simp only: simp_thms)
  apply (rule iffI)
   apply (elim exE conjE)
   apply hypsubst
   apply (intro exI conjI)
        apply (rule refl)
       apply assumption+
  apply (elim exE conjE)
  apply hypsubst
  apply (intro exI conjI)
             apply (rule refl | assumption)+
  done

lemma module_name_match:
  "rx_ok rx_module_name pre rest [] []
     \<longleftrightarrow> (\<exists>w1 w2 w3 nm b.
            rest = ''MODULE_NAME:'' @ w1 @ ''&str'' @ w2 @ ''='' @ w3 @ [DQ] @ nm @ [DQ] @ b
            \<and> (\<forall>c \<in> set w1. py_isspace c) \<and> (\<forall>c \<in> set w2. py_isspace c) \<and> (\<forall>c \<in> set w3. py_isspace c)
            \<and> nm \<noteq> [] \<and> DQ \<notin> set nm)"
proof -
  have "(\<forall>c \<in> set nm. c \<noteq> DQ) \<longleftrightarrow> DQ \<notin> set nm" for nm by blast
  then show ?thesis unfolding rx_module_name_def marker_pattern_match by (simp only:)
qed

lemma re_search_iff:
  "re_search r s \<noteq> None \<longleftrightarrow> (\<exists>a rest. s = a @ rest \<and> rx_ok r (rev a) rest [] [])"
proof -
  have "re_search r s \<noteq> None
     \<longleftrightarrow> (\<exists>pre' rest'. (pre', rest') \<in> set (spans (\<lambda>c. True) [] s) \<and> rx_ok r pre' rest' [] [])"
    unfolding re_search_def rx_first_some ..
  also have "\<dots> \<longleftrightarrow> (\<exists>a rest. s = a @ rest \<and> rx_ok r (rev a) rest [] [])"
    unfolding spans_iff by auto
  finally show ?thesis .
qed

lemma has_module_marker_iff: "has_module_marker s \<longleftrightarrow> (\<exists>m. parse_module_name s = Inr m)"
proof -
  have "(\<exists>m. parse_module_name s = Inr m) \<longleftrightarrow> re_search rx_module_name s \<noteq> None"
    by (cases "re_search rx_module_name s") (simp_all add: parse_module_name_def)
  also have "\<dots> \<longleftrightarrow> has_module_marker s"
    unfolding re_search_iff module_name_match has_module_marker_def by blast
  finally show ?thesis by (simp del: not_None_eq)
qed

lemma missing_marker_parse:
  "missing_marker s =
     (case parse_module_name s of
        Inl e \<Rightarrow> Some e
      | Inr modl \<Rightarrow> (case parse_aivi_source s of Inl e \<Rightarrow> Some e | Inr aivi_src \<Rightarrow> None))"
proof (cases "has_module_marker s")
  case False
  then have "parse_module_name s = Inl (ValueError ''missing MODULE_NAME'')"
    using has_module_marker_iff [of s] parse_errors(1) [of s] by (cases "parse_module_name s") auto
  with False show ?thesis by (simp add: missing_marker_def)
next
  case True
  then obtain modl where m: "parse_module_name s = Inr modl" using has_module_marker_iff [of s] by blast
  show ?thesis
  proof (cases "occurs_in source_marker s")
    case False
    with True m parse_aivi_source_no_marker [of s] show ?thesis by (simp add: missing_marker_def)
  next
    case o: True
    show ?thesis
    proof (cases "lacks_terminator s")
      case True
      with o parse_aivi_source_cases [of s]
      have "parse_aivi_source s = Inl (ValueError ''missing SOURCE terminator'')" by simp
      with True o m \<open>has_module_marker s\<close> show ?thesis by (simp add: missing_marker_def)
    next
      case False
      with o parse_aivi_source_cases [of s] obtain src where "parse_aivi_source s = Inr src" by auto
      with False o m \<open>has_module_marker s\<close> show ?thesis by (simp add: missing_marker_def)
    qed
  qed
qed

lemma well_marked_Nil: "well_marked [] = True"
  by (simp add: well_marked_def)

lemma well_marked_Cons:
  "well_marked ((rs_name, rs_text) # files)
     \<longleftrightarrow> (rs_name = ''mod.rs'' \<or> missing_marker rs_text = None) \<and> well_marked files"
  by (simp add: well_marked_def)

lemma main_loop_raised:
  "raised (main_loop root files g ws) = None \<longleftrightarrow> well_marked files"
proof (induction files arbitrary: g ws)
  case Nil
  show ?case by (simp add: well_marked_Nil)
next
  case (Cons f files)
  obtain rs_name rs_text where f: "f = (rs_name, rs_text)" by (cases f)
  show ?case
  proof (cases rule: main_loop_step [of rs_name root rs_text])
    case skip
    have "main_loop root (f # files) g ws = main_loop root files g ws"
      using skip(2) [of files] f by simp
    with Cons.IH [of g ws] skip(1) f show ?thesis by (simp add: well_marked_Cons)
  next
    case (fail e)
    have "main_loop root (f # files) g ws = \<lparr>written = ws, printed = [], raised = Some e\<rparr>"
      using fail(3) [of files] f by simp
    moreover have "missing_marker rs_text = Some e"
      using fail(2) by (auto simp: missing_marker_parse)
    ultimately show ?thesis using fail(1) f by (simp add: well_marked_Cons)
  next
    case (ok modl aivi_src n ws')
    have "main_loop root (f # files) g ws = main_loop root files (g + n) (ws @ ws')"
      using ok(5) [of files] f by simp
    moreover have "missing_marker rs_text = None"
      using ok(2,3) by (simp add: missing_marker_parse)
    ultimately show ?thesis using Cons.IH [of "g + n" "ws @ ws'"] f by (simp add: well_marked_Cons)
  qed
qed

lemma well_marked_sorted: "well_marked (sort_key fst listing) \<longleftrightarrow> well_marked listing"
  by (simp add: well_marked_def)

text \<open>
  The claim C6 fails as stated.  The directory holds \<^verbatim>\<open>a.rs\<close>, \<^verbatim>\<open>b.rs\<close> and \<^verbatim>\<open>c.rs\<close>,
  and \<^verbatim>\<open>b.rs\<close> has no module-name marker.  The run ends with \<^verbatim>\<open>ValueError\<close>, but the
  test file of \<^verbatim>\<open>a.rs\<close> has been written, and the message does not name \<^verbatim>\<open>b.rs\<close>.
\<close>

theorem C6_abort_leaves_files_counterexample:
  "main ''/repo'' (Some [(''b.rs'', ''// nothing here''), (''a.rs'', good_file ''origin''), (''c.rs'', good_file ''other'')])
   = \<lparr>written = [([''aivi'', ''example'', ''origin.aivi''],
         ''@no_prelude'' @ [LF] @ ''module integrationTests.stdlib.aivi.example.origin'' @ [LF]
         @ [LF] @ ''use aivi'' @ [LF] @ ''use aivi.testing (assert)'' @ [LF]
         @ [LF] @ ''use aivi.example'' @ [LF]
         @ [LF] @ ''subject = origin'' @ [LF]
         @ [LF] @ ''@test'' @ [LF] @ ''smoke = effect {'' @ [LF] @ ''  _ <- pure subject'' @ [LF]
         @ ''  _ <- assert True'' @ [LF] @ ''}'' @ [LF])],
      printed = [], raised = Some (ValueError ''missing MODULE_NAME'')\<rparr>"
  by code_simp

text \<open>
  C6, amended.  When a file other than \<^verbatim>\<open>mod.rs\<close> lacks the module-name marker or a
  delimiter of the source block, and the files before it in sorted order lack none, the run
  ends at that file with the \<^verbatim>\<open>ValueError\<close> for the first marker it lacks; nothing is
  printed, and what has been written is what the files before it wrote: nothing is written
  for the file itself or for a later one.  A text without the module-name marker gives
  \<^verbatim>\<open>missing MODULE_NAME\<close>, a text without the open delimiter \<^verbatim>\<open>missing SOURCE marker\<close>, a
  text with no close delimiter after the open delimiter \<^verbatim>\<open>missing SOURCE terminator\<close>, and
  a text that has them is parsed; none of the messages names the file.  A run ends without
  an exception exactly when all its files are well marked, and it then prints the one count
  line.
\<close>

theorem C6_abort_keeps_earlier_files:
  "(sort_key fst listing = pre @ (rs_name, rs_text) # post
      \<and> well_marked pre \<and> rs_name \<noteq> ''mod.rs'' \<and> missing_marker rs_text = Some e
    \<longrightarrow> main root (Some listing)
          = \<lparr>written = written (main_loop root pre 0 []), printed = [], raised = Some e\<rparr>
        \<and> raised (main_loop root pre 0 []) = None)
   \<and> (\<not> has_module_marker s
        \<longrightarrow> parse_module_name s = Inl (ValueError ''missing MODULE_NAME''))
   \<and> (has_module_marker s \<longrightarrow> (\<exists>modl. parse_module_name s = Inr modl))
   \<and> (\<not> occurs_in source_marker s
        \<longrightarrow> parse_aivi_source s = Inl (ValueError ''missing SOURCE marker''))
   \<and> (occurs_in source_marker s \<and> lacks_terminator s
        \<longrightarrow> parse_aivi_source s = Inl (ValueError ''missing SOURCE terminator''))
   \<and> (occurs_in source_marker s \<and> \<not> lacks_terminator s \<longrightarrow> (\<exists>aivi_src. parse_aivi_source s = Inr aivi_src))
   \<and> (raised (main root (Some listing)) = None \<longleftrightarrow> well_marked listing)
   \<and> (raised (main root (Some listing)) = None
    \<longrightarrow> (\<exists>n. printed (main root (Some listing))
               = [''generated '' @ str_nat n @ '' export tests under '' @ OUT root]))"
proof (intro conjI impI)
  assume a: "sort_key fst listing = pre @ (rs_name, rs_text) # post
      \<and> well_marked pre \<and> rs_name \<noteq> ''mod.rs'' \<and> missing_marker rs_text = Some e"
  then show r: "raised (main_loop root pre 0 []) = None" by (simp add: main_loop_raised)
  have "parse_module_name rs_text = Inl e
      \<or> (\<exists>modl. parse_module_name rs_text = Inr modl) \<and> parse_aivi_source rs_text = Inl e"
    using a by (auto simp: missing_marker_parse split: sum.splits)
  then have "main_loop root ((rs_name, rs_text) # post) g ws
      = \<lparr>written = ws, printed = [], raised = Some e\<rparr>" for g ws
    using a by auto
  moreover from r obtain g' where
    "main_loop root (pre @ (rs_name, rs_text) # post) 0 []
       = main_loop root ((rs_name, rs_text) # post) g' (written (main_loop root pre 0 []))"
    using main_loop_append [of root pre 0 "[]" "(rs_name, rs_text) # post"] by blast
  ultimately show "main root (Some listing)
          = \<lparr>written = written (main_loop root pre 0 []), printed = [], raised = Some e\<rparr>"
    using a by (simp add: main_def)
next
  assume "\<not> has_module_marker s"
  then show "parse_module_name s = Inl (ValueError ''missing MODULE_NAME'')"
    using has_module_marker_iff [of s] parse_errors(1) [of s] by (cases "parse_module_name s") auto
next
  assume "has_module_marker s"
  then show "\<exists>modl. parse_module_name s = Inr modl" by (simp add: has_module_marker_iff)
next
  assume "\<not> occurs_in source_marker s"
  then show "parse_aivi_source s = Inl (ValueError ''missing SOURCE marker'')"
    by (rule parse_aivi_source_no_marker)
next
  assume "occurs_in source_marker s \<and> lacks_terminator s"
  then show "parse_aivi_source s = Inl (ValueError ''missing SOURCE terminator'')"
    using parse_aivi_source_cases [of s] by simp
next
  assume "occurs_in source_marker s \<and> \<not> lacks_terminator s"
  then show "\<exists>aivi_src. parse_aivi_source s = Inr aivi_src"
    using parse_aivi_source_cases [of s] by simp
next
  show "raised (main root (Some listing)) = None \<longleftrightarrow> well_marked listing"
    by (simp add: main_def main_loop_raised well_marked_sorted)
next
  assume "raised (main root (Some listing)) = None"
  then show "\<exists>n. printed (main root (Some listing))
               = [''generated '' @ str_nat n @ '' export tests under '' @ OUT root]"
    using main_loop_success [of root "sort_key fst listing" 0 "[]"] by (simp add: main_def)
qed

theorem C6_abort_keeps_earlier_files_witness:
  "sort_key fst [(''b.rs'', ''// nothing here''), (''a.rs'', good_file ''origin''), (''c.rs'', good_file ''other'')]
     = [(''a.rs'', good_file ''origin'')] @ (''b.rs'', ''// nothing here'') # [(''c.rs'', good_file ''other'')]
   \<and> well_marked [(''a.rs'', good_file ''origin'')]
   \<and> ''b.rs'' \<noteq> ''mod.rs''
   \<and> missing_marker ''// nothing here'' = Some (ValueError ''missing MODULE_NAME'')
   \<and> main ''/repo'' (Some [(''b.rs'', ''// nothing here''), (''a.rs'', good_file ''origin''), (''c.rs'', good_file ''other'')])
       = \<lparr>written = written (main_loop ''/repo'' [(''a.rs'', good_file ''origin'')] 0 []), printed = [],
          raised = Some (ValueError ''missing MODULE_NAME'')\<rparr>
   \<and> sort_key fst [(''b.rs'', file_without_source), (''a.rs'', good_file ''origin''), (''c.rs'', good_file ''other'')]
     = [(''a.rs'', good_file ''origin'')] @ (''b.rs'', file_without_source) # [(''c.rs'', good_file ''other'')]
   \<and> missing_marker file_without_source = Some (ValueError ''missing SOURCE marker'')
   \<and> main ''/repo'' (Some [(''b.rs'', file_without_source), (''a.rs'', good_file ''origin''), (''c.rs'', good_file ''other'')])
       = \<lparr>written = written (main_loop ''/repo'' [(''a.rs'', good_file ''origin'')] 0 []), printed = [],
          raised = Some (ValueError ''missing SOURCE marker'')\<rparr>
   \<and> sort_key fst [(''b.rs'', file_without_terminator), (''a.rs'', good_file ''origin''), (''c.rs'', good_file ''other'')]
     = [(''a.rs'', good_file ''origin'')] @ (''b.rs'', file_without_terminator) # [(''c.rs'', good_file ''other'')]
   \<and> missing_marker file_without_terminator = Some (ValueError ''missing SOURCE terminator'')
   \<and> main ''/repo'' (Some [(''b.rs'', file_without_terminator), (''a.rs'', good_file ''origin''), (''c.rs'', good_file ''other'')])
       = \<lparr>written = written (main_loop ''/repo'' [(''a.rs'', good_file ''origin'')] 0 []), printed = [],
          raised = Some (ValueError ''missing SOURCE terminator'')\<rparr>
   \<and> written (main_loop ''/repo'' [(''a.rs'', good_file ''origin'')] 0 [])
       = written (main ''/repo'' (Some [(''a.rs'', good_file ''origin'')]))
   \<and> length (written (main_loop ''/repo'' [(''a.rs'', good_file ''origin'')] 0 [])) = 1
   \<and> \<not> has_module_marker ''// nothing here''
   \<and> parse_module_name ''// nothing here'' = Inl (ValueError ''missing MODULE_NAME'')
   \<and> has_module_marker file_without_source
   \<and> parse_module_name file_without_source = Inr ''aivi.example''
   \<and> \<not> occurs_in source_marker file_without_source
   \<and> parse_aivi_source file_without_source = Inl (ValueError ''missing SOURCE marker'')
   \<and> occurs_in source_marker file_without_terminator
   \<and> lacks_terminator file_without_terminator
   \<and> parse_aivi_source file_without_terminator = Inl (ValueError ''missing SOURCE terminator'')
   \<and> occurs_in source_marker (good_file ''origin'')
   \<and> \<not> lacks_terminator (good_file ''origin'')
   \<and> parse_aivi_source (good_file ''origin'') = Inr ''export origin''
   \<and> well_marked [(''mod.rs'', ''// nothing here''), (''a.rs'', good_file ''origin'')]
   \<and> raised (main ''/repo'' (Some [(''mod.rs'', ''// nothing here''), (''a.rs'', good_file ''origin'')])) = None
   \<and> printed (main ''/repo'' (Some [(''mod.rs'', ''// nothing here''), (''a.rs'', good_file ''origin'')]))
       = [''generated 1 export tests under /repo/integration-tests/stdlib'']"
proof -
  let ?a = "(''a.rs'', good_file ''origin'')"
  let ?c = "(''c.rs'', good_file ''other'')"
  let ?w = "written (main_loop ''/repo'' [?a] 0 [])"
  have s1: "sort_key fst [(''b.rs'', ''// nothing here''), ?a, ?c] = [?a] @ (''b.rs'', ''// nothing here'') # [?c]"
    by code_simp
  have s2: "sort_key fst [(''b.rs'', file_without_source), ?a, ?c] = [?a] @ (''b.rs'', file_without_source) # [?c]"
    by code_simp
  have s3: "sort_key fst [(''b.rs'', file_without_terminator), ?a, ?c]
      = [?a] @ (''b.rs'', file_without_terminator) # [?c]"
    by code_simp
  have wm: "well_marked [?a]"
    unfolding well_marked_Cons well_marked_Nil missing_marker_parse by code_simp
  have nb: "''b.rs'' \<noteq> ''mod.rs''" by simp
  have m1: "missing_marker ''// nothing here'' = Some (ValueError ''missing MODULE_NAME'')"
    unfolding missing_marker_parse by code_simp
  have m2: "missing_marker file_without_source = Some (ValueError ''missing SOURCE marker'')"
    unfolding missing_marker_parse by code_simp
  have m3: "missing_marker file_without_terminator = Some (ValueError ''missing SOURCE terminator'')"
    unfolding missing_marker_parse by code_simp
  have p1: "parse_module_name ''// nothing here'' = Inl (ValueError ''missing MODULE_NAME'')" by code_simp
  have p2: "parse_module_name file_without_source = Inr ''aivi.example''" by code_simp
  have p3: "parse_aivi_source file_without_source = Inl (ValueError ''missing SOURCE marker'')" by code_simp
  have p4: "parse_aivi_source file_without_terminator = Inl (ValueError ''missing SOURCE terminator'')"
    by code_simp
  have p5: "parse_aivi_source (good_file ''origin'') = Inr ''export origin''" by code_simp
  have h1: "\<not> has_module_marker ''// nothing here''" using p1 by (simp add: has_module_marker_iff)
  have h2: "has_module_marker file_without_source" using p2 by (simp add: has_module_marker_iff)
  have f3: "find_from source_marker 0 file_without_source = None" by code_simp
  have f4: "find_from source_marker 0 file_without_terminator \<noteq> None" by code_simp
  have f5: "find_from source_marker 0 (good_file ''origin'') \<noteq> None" by code_simp
  have o3: "\<not> occurs_in source_marker file_without_source" using f3 by (simp only: find_from_None simp_thms)
  have o4: "occurs_in source_marker file_without_terminator" using f4 by (simp only: find_from_None simp_thms)
  have o5: "occurs_in source_marker (good_file ''origin'')" using f5 by (simp only: find_from_None simp_thms)
  have l4: "lacks_terminator file_without_terminator"
    using parse_aivi_source_cases [OF o4] p4 by (cases "lacks_terminator file_without_terminator") simp_all
  have l5: "\<not> lacks_terminator (good_file ''origin'')"
    using parse_aivi_source_cases [OF o5] p5 by (cases "lacks_terminator (good_file ''origin'')") simp_all
  have wm2: "well_marked [(''mod.rs'', ''// nothing here''), ?a]"
    unfolding well_marked_Cons well_marked_Nil missing_marker_parse by code_simp
  have w1: "?w = written (main ''/repo'' (Some [?a]))" by code_simp
  have w2: "length ?w = 1" by code_simp
  have pr: "printed (main ''/repo'' (Some [(''mod.rs'', ''// nothing here''), ?a]))
       = [''generated 1 export tests under /repo/integration-tests/stdlib'']" by code_simp
  note i1 = C6_abort_keeps_earlier_files [where listing = "[(''b.rs'', ''// nothing here''), ?a, ?c]"
      and pre = "[?a]" and rs_name = "''b.rs''" and rs_text = "''// nothing here''" and post = "[?c]"
      and root = "''/repo''" and e = "ValueError ''missing MODULE_NAME''" and s = "''// nothing here''"]
  note i2 = C6_abort_keeps_earlier_files [where listing = "[(''b.rs'', file_without_source), ?a, ?c]"
      and pre = "[?a]" and rs_name = "''b.rs''" and rs_text = "file_without_source" and post = "[?c]"
      and root = "''/repo''" and e = "ValueError ''missing SOURCE marker''" and s = "file_without_source"]
  note i3 = C6_abort_keeps_earlier_files [where listing = "[(''b.rs'', file_without_terminator), ?a, ?c]"
      and pre = "[?a]" and rs_name = "''b.rs''" and rs_text = "file_without_terminator" and post = "[?c]"
      and root = "''/repo''" and e = "ValueError ''missing SOURCE terminator''" and s = "file_without_terminator"]
  note i4 = C6_abort_keeps_earlier_files [where listing = "[(''mod.rs'', ''// nothing here''), ?a]"
      and root = "''/repo''" and s = "good_file ''origin''"]
  have r1: "main ''/repo'' (Some [(''b.rs'', ''// nothing here''), ?a, ?c])
       = \<lparr>written = ?w, printed = [], raised = Some (ValueError ''missing MODULE_NAME'')\<rparr>"
    using i1 s1 wm nb m1 by blast
  have r2: "main ''/repo'' (Some [(''b.rs'', file_without_source), ?a, ?c])
       = \<lparr>written = ?w, printed = [], raised = Some (ValueError ''missing SOURCE marker'')\<rparr>"
    using i2 s2 wm nb m2 by blast
  have r3: "main ''/repo'' (Some [(''b.rs'', file_without_terminator), ?a, ?c])
       = \<lparr>written = ?w, printed = [], raised = Some (ValueError ''missing SOURCE terminator'')\<rparr>"
    using i3 s3 wm nb m3 by blast
  have r4: "raised (main ''/repo'' (Some [(''mod.rs'', ''// nothing here''), ?a])) = None"
    using i4 wm2 by blast
  show ?thesis
    by (intro conjI) (fact s1 s2 s3 wm nb m1 m2 m3 p1 p2 p3 p4 p5 h1 h2 o3 o4 o5 l4 l5 wm2 w1 w2 pr r1 r2 r3 r4)+
qed

subsection \<open>The driver: determinism\<close>

lemma filter_key_distinct:
  "distinct (map f xs) \<Longrightarrow> k \<in> set xs \<Longrightarrow> filter (\<lambda>x. f k = f x) xs = [k]"
proof (induction xs)
  case Nil
  then show ?case by simp
next
  case (Cons x xs)
  show ?case
  proof (cases "k = x")
    case True
    have "filter (\<lambda>y. f x = f y) xs = []"
      using Cons.prems(1) by (auto simp: filter_empty_conv)
    with True show ?thesis by simp
  next
    case False
    with Cons.prems have k: "k \<in> set xs" by simp
    then have "f k \<in> f ` set xs" by (rule imageI)
    then have "f k \<noteq> f x" using Cons.prems(1) by auto
    then show ?thesis using Cons.IH k Cons.prems(1) by simp
  qed
qed

lemma sort_key_permutation:
  assumes "distinct (map f xs)" and "mset xs = mset ys"
  shows "sort_key f xs = sort_key f ys"
proof (rule properties_for_sort_key [symmetric])
  show "mset (sort_key f xs) = mset ys" using assms(2) by simp
next
  show "sorted (map f (sort_key f xs))" by simp
next
  fix k assume k: "k \<in> set (sort_key f xs)"
  have "mset (map f xs) = mset (map f ys)" using assms(2) by (metis mset_map)
  then have dy: "distinct (map f ys)"
    using assms(1) mset_eq_imp_distinct_iff by blast
  have "mset (map f (sort_key f xs)) = mset (map f xs)" by simp
  then have dx: "distinct (map f (sort_key f xs))"
    using assms(1) mset_eq_imp_distinct_iff by blast
  have "set xs = set ys" using assms(2) by (rule mset_eq_setD)
  then have ky: "k \<in> set ys" using k by simp
  show "filter (\<lambda>x. f k = f x) (sort_key f xs) = filter (\<lambda>x. f k = f x) ys"
    using filter_key_distinct [OF dx k] filter_key_distinct [OF dy ky] by simp
qed

lemma apply_writes_map_add: "apply_writes ws tree = tree ++ map_of (rev ws)"
proof (induction ws arbitrary: tree)
  case Nil
  show ?case by (simp add: apply_writes_def)
next
  case (Cons w ws)
  obtain path content where w: "w = (path, content)" by (cases w)
  have "apply_writes (w # ws) tree = apply_writes ws (tree(path \<mapsto> content))"
    by (simp add: apply_writes_def w)
  also have "\<dots> = tree(path \<mapsto> content) ++ map_of (rev ws)" by (rule Cons.IH)
  also have "\<dots> = tree ++ map_of (rev (w # ws))"
    by (simp add: w map_add_upd_left fun_eq_iff map_add_def split: option.splits)
  finally show ?case .
qed

lemma apply_writes_twice: "apply_writes ws (apply_writes ws tree) = apply_writes ws tree"
  by (simp add: apply_writes_map_add fun_eq_iff map_add_def split: option.splits)

lemma main_loop_writes_local:
  "w \<in> set (written (main_loop root files g ws)) \<Longrightarrow> w \<notin> set ws \<Longrightarrow>
   \<exists>rs \<in> set files. \<exists>modl aivi_src.
      parse_module_name (snd rs) = Inr modl \<and> parse_aivi_source (snd rs) = Inr aivi_src
      \<and> w \<in> set (snd (module_tests modl aivi_src))"
proof (induction files arbitrary: g ws)
  case Nil
  then show ?case by simp
next
  case (Cons f files)
  obtain rs_name rs_text where f: "f = (rs_name, rs_text)" by (cases f)
  show ?case
  proof (cases rule: main_loop_step [where rs_name = rs_name and rs_text = rs_text and root = root])
    case skip
    have "main_loop root (f # files) g ws = main_loop root files g ws"
      using skip(2) [of files] f by simp
    with Cons.IH [of g ws] Cons.prems show ?thesis by auto
  next
    case (fail e)
    have "main_loop root (f # files) g ws = \<lparr>written = ws, printed = [], raised = Some e\<rparr>"
      using fail(3) [of files] f by simp
    with Cons.prems show ?thesis by simp
  next
    case (ok modl aivi_src n ws')
    have e: "main_loop root (f # files) g ws = main_loop root files (g + n) (ws @ ws')"
      using ok(5) [of files] f by simp
    show ?thesis
    proof (cases "w \<in> set ws'")
      case True
      then show ?thesis using ok f by (intro bexI [of _ f]) auto
    next
      case False
      with Cons.prems e have "w \<in> set (written (main_loop root files (g + n) (ws @ ws')))" "w \<notin> set (ws @ ws')"
        by simp_all
      from Cons.IH [OF this] show ?thesis by auto
    qed
  qed
qed

text \<open>
  C2.  The outcome of a run (the writes in their order, the printed line, the exception) is
  the same for every order in which the file system lists the files of the directory, since
  the driver sorts them by name.  Applying the writes of a run to the output tree a second
  time leaves the tree unchanged.  Every write of a run is a write of \<^verbatim>\<open>module_tests\<close> for
  the module name and the source of one input file: no write depends on another file.
\<close>

theorem C2_runs_are_deterministic:
  "(distinct (map fst listing1) \<and> mset listing1 = mset listing2
      \<longrightarrow> main root (Some listing1) = main root (Some listing2))
   \<and> apply_writes (written (main root stdlib)) (apply_writes (written (main root stdlib)) tree)
       = apply_writes (written (main root stdlib)) tree
   \<and> (\<forall>w \<in> set (written (main root (Some listing))).
        \<exists>rs \<in> set listing. \<exists>modl aivi_src.
           parse_module_name (snd rs) = Inr modl \<and> parse_aivi_source (snd rs) = Inr aivi_src
           \<and> w \<in> set (snd (module_tests modl aivi_src)))"
proof (intro conjI impI ballI)
  assume "distinct (map fst listing1) \<and> mset listing1 = mset listing2"
  then have "sort_key fst listing1 = sort_key fst listing2" by (intro sort_key_permutation) simp_all
  then show "main root (Some listing1) = main root (Some listing2)" by (simp add: main_def)
next
  show "apply_writes (written (main root stdlib)) (apply_writes (written (main root stdlib)) tree)
       = apply_writes (written (main root stdlib)) tree"
    by (rule apply_writes_twice)
next
  fix w assume "w \<in> set (written (main root (Some listing)))"
  then have "w \<in> set (written (main_loop root (sort_key fst listing) 0 []))" by (simp add: main_def)
  from main_loop_writes_local [OF this] show "\<exists>rs \<in> set listing. \<exists>modl aivi_src.
           parse_module_name (snd rs) = Inr modl \<and> parse_aivi_source (snd rs) = Inr aivi_src
           \<and> w \<in> set (snd (module_tests modl aivi_src))"
    by auto
qed

theorem C2_runs_are_deterministic_witness:
  "distinct (map fst [(''b.rs'', good_file ''other''), (''a.rs'', good_file ''origin'')])
   \<and> mset [(''b.rs'', good_file ''other''), (''a.rs'', good_file ''origin'')]
       = mset [(''a.rs'', good_file ''origin''), (''b.rs'', good_file ''other'')]
   \<and> main ''/repo'' (Some [(''b.rs'', good_file ''other''), (''a.rs'', good_file ''origin'')])
       = main ''/repo'' (Some [(''a.rs'', good_file ''origin''), (''b.rs'', good_file ''other'')])
   \<and> length (written (main ''/repo'' (Some [(''b.rs'', good_file ''other''), (''a.rs'', good_file ''origin'')]))) = 2"
proof -
  have a: "distinct (map fst [(''b.rs'', good_file ''other''), (''a.rs'', good_file ''origin'')])" by simp
  have b: "mset [(''b.rs'', good_file ''other''), (''a.rs'', good_file ''origin'')]
       = mset [(''a.rs'', good_file ''origin''), (''b.rs'', good_file ''other'')]" by simp
  have c: "length (written (main ''/repo'' (Some [(''b.rs'', good_file ''other''), (''a.rs'', good_file ''origin'')]))) = 2"
    by code_simp
  show ?thesis
    using a b c
      C2_runs_are_deterministic [of "[(''b.rs'', good_file ''other''), (''a.rs'', good_file ''origin'')]"
        "[(''a.rs'', good_file ''origin''), (''b.rs'', good_file ''other'')]" "''/repo''"]
    by blast
qed

subsection \<open>Totality of the synthesis\<close>




















end
